theory Spec2Isabelle
  imports Main
begin

section \<open>Python values, exceptions and short-circuit evaluation\<close>

text \<open>
  The exceptions the algebra modules can raise. A raising computation is a value
  \<open>Inl e\<close>; a returning one is \<open>Inr v\<close>.
\<close>

datatype error = ValueError | AttributeError | TypeError | ZeroDivisionError | KeyError

definition bindE :: "error + 'a \<Rightarrow> ('a \<Rightarrow> error + 'b) \<Rightarrow> error + 'b" where
  "bindE m f = (case m of Inl e \<Rightarrow> Inl e | Inr v \<Rightarrow> f v)"

text \<open>Python's \<open>a and b\<close> on booleans: \<open>b\<close> is evaluated only when \<open>a\<close> is true.\<close>

definition andE :: "error + bool \<Rightarrow> error + bool \<Rightarrow> error + bool" where
  "andE a b = (case a of Inl e \<Rightarrow> Inl e | Inr t \<Rightarrow> if t then b else Inr False)"

text \<open>\<open>all(p(x) for x in xs)\<close>: stops at the first false item or the first exception.\<close>

fun all_E :: "('a \<Rightarrow> error + bool) \<Rightarrow> 'a list \<Rightarrow> error + bool" where
  "all_E p [] = Inr True"
| "all_E p (x # xs) =
     (case p x of Inl e \<Rightarrow> Inl e | Inr b \<Rightarrow> if b then all_E p xs else Inr False)"

text \<open>\<open>next((x for x in xs if p(x)), None)\<close>: the first item passing the test.\<close>

fun next_E :: "('a \<Rightarrow> error + bool) \<Rightarrow> 'a list \<Rightarrow> error + 'a option" where
  "next_E p [] = Inr None"
| "next_E p (x # xs) =
     (case p x of Inl e \<Rightarrow> Inl e | Inr b \<Rightarrow> if b then Inr (Some x) else next_E p xs)"

text \<open>A comprehension \<open>tuple(g(x) for x in xs)\<close> whose items may raise.\<close>

fun map_E :: "('a \<Rightarrow> error + 'b) \<Rightarrow> 'a list \<Rightarrow> error + 'b list" where
  "map_E g [] = Inr []"
| "map_E g (x # xs) =
     (case g x of Inl e \<Rightarrow> Inl e
      | Inr y \<Rightarrow> (case map_E g xs of Inl e \<Rightarrow> Inl e | Inr ys \<Rightarrow> Inr (y # ys)))"

section \<open>Structure, Field and their elements (structure.py)\<close>

text \<open>
  The dataclass \<open>Structure\<close>. Its field \<open>set\<close> is a Python set of integers; it is
  listed here in the order the set is iterated, without repetition. The operations are
  Python callables on integers, taken as total functions.
\<close>

record Structure =
  name_S :: string
  set_S :: "int list"
  add_S :: "int \<Rightarrow> int \<Rightarrow> int"
  mul_S :: "int \<Rightarrow> int \<Rightarrow> int"
  inv_S :: "int \<Rightarrow> int"

text \<open>The dataclass \<open>Field\<close>: the carrier is \<open>range(ord)\<close>.\<close>

record Field =
  name_F :: string
  ord_F :: int
  add_F :: "int \<Rightarrow> int \<Rightarrow> int"
  mul_F :: "int \<Rightarrow> int \<Rightarrow> int"

text \<open>The functions of functions.py and canonical.py take a \<open>Field | Structure\<close>.\<close>

datatype struct = OfStructure Structure | OfField Field

text \<open>
  An \<open>Element\<close> is an object of the class generated inside its owner: it holds the raw
  value and reaches the owner (\<open>instance\<close>) through the closure.
\<close>

datatype element = Element (instance_of: struct) (value_of: int)

text \<open>
  What \<open>__getitem__\<close>, \<open>mul_inv\<close> and \<open>pow\<close> can return: an element, the float
  \<open>nan\<close>, and \<open>None\<close> (which has to be a value for \<open>is not None\<close> to be a test).
\<close>

datatype pyval = Elem element | NaN | PyNone

subsection \<open>The methods of Element\<close>

text \<open>\<open>__hash__\<close>, \<open>__bool__\<close>, \<open>__eq__\<close>, \<open>__lt__\<close> read the raw value only.\<close>

definition Element_hash :: "element \<Rightarrow> int" where
  "Element_hash x = value_of x"

definition Element_bool :: "element \<Rightarrow> bool" where
  "Element_bool x = (value_of x \<noteq> 0)"

definition Element_eq :: "element \<Rightarrow> element \<Rightarrow> bool" where
  "Element_eq x y = (value_of x = value_of y)"

definition Element_lt :: "element \<Rightarrow> element \<Rightarrow> bool" where
  "Element_lt x y = (value_of x < value_of y)"

text \<open>
  \<open>Element(v)\<close> inside the class of an owner: a Structure stores \<open>v\<close>, a Field stores
  \<open>v % ord\<close>, which raises for order 0.
\<close>

definition Element_init :: "struct \<Rightarrow> int \<Rightarrow> error + element" where
  "Element_init s v =
     (case s of
        OfStructure S \<Rightarrow> Inr (Element s v)
      | OfField F \<Rightarrow>
          if ord_F F = 0 then Inl ZeroDivisionError else Inr (Element s (v mod ord_F F)))"

definition Element_add :: "element \<Rightarrow> element \<Rightarrow> error + element" where
  "Element_add x y =
     (case instance_of x of
        OfStructure S \<Rightarrow> Element_init (instance_of x) (add_S S (value_of x) (value_of y))
      | OfField F \<Rightarrow> Element_init (instance_of x) (add_F F (value_of x) (value_of y)))"

definition Element_mul :: "element \<Rightarrow> element \<Rightarrow> error + element" where
  "Element_mul x y =
     (case instance_of x of
        OfStructure S \<Rightarrow> Element_init (instance_of x) (mul_S S (value_of x) (value_of y))
      | OfField F \<Rightarrow> Element_init (instance_of x) (mul_F F (value_of x) (value_of y)))"

text \<open>
  \<open>==\<close> between the values that occur. \<open>Element.__eq__\<close> reads \<open>other.value\<close>, which
  a float and \<open>None\<close> do not have; with a float or \<open>None\<close> on the left, their own
  \<open>__eq__\<close> declines and Python calls \<open>Element.__eq__\<close> reflected.
\<close>

fun py_eq :: "pyval \<Rightarrow> pyval \<Rightarrow> error + bool" where
  "py_eq (Elem x) (Elem y) = Inr (Element_eq x y)"
| "py_eq (Elem x) NaN = Inl AttributeError"
| "py_eq (Elem x) PyNone = Inl AttributeError"
| "py_eq NaN (Elem y) = Inl AttributeError"
| "py_eq PyNone (Elem y) = Inl AttributeError"
| "py_eq NaN NaN = Inr False"
| "py_eq NaN PyNone = Inr False"
| "py_eq PyNone NaN = Inr False"
| "py_eq PyNone PyNone = Inr True"

text \<open>\<open>!=\<close>: Element inherits \<open>__ne__\<close>, which negates \<open>__eq__\<close>.\<close>

definition py_ne :: "pyval \<Rightarrow> pyval \<Rightarrow> error + bool" where
  "py_ne a b = bindE (py_eq a b) (\<lambda>r. Inr (\<not> r))"

text \<open>
  \<open>a * el\<close> with an element on the right: a float or \<open>None\<close> on the left cannot
  multiply an Element, and Element has no \<open>__rmul__\<close>.
\<close>

fun py_mul :: "pyval \<Rightarrow> element \<Rightarrow> error + pyval" where
  "py_mul (Elem x) el = bindE (Element_mul x el) (\<lambda>p. Inr (Elem p))"
| "py_mul NaN el = Inl TypeError"
| "py_mul PyNone el = Inl TypeError"

subsection \<open>Elements and identities of a structure\<close>

text \<open>
  \<open>_generate_element\<close> of a Structure checks membership; of a Field it does not.
\<close>

definition generate_element :: "struct \<Rightarrow> int \<Rightarrow> error + element" where
  "generate_element s v =
     (case s of
        OfStructure S \<Rightarrow> if v \<in> set (set_S S) then Element_init s v else Inl ValueError
      | OfField F \<Rightarrow> Element_init s v)"

text \<open>
  The dictionary \<open>_elements\<close> built by \<open>__post_init__\<close>, as an association list in
  insertion order, and \<open>elements\<close>, its values. Every \<open>_generate_element\<close> call made
  here returns: the value is in the set, and \<open>range(ord)\<close> is empty unless the order is
  positive.
\<close>

definition keys :: "struct \<Rightarrow> int list" where
  "keys s = (case s of OfStructure S \<Rightarrow> remdups (set_S S) | OfField F \<Rightarrow> [0..ord_F F - 1])"

definition elements_dict :: "struct \<Rightarrow> (int \<times> element) list" where
  "elements_dict s =
     map (\<lambda>el. (el, case s of OfStructure S \<Rightarrow> Element s el
                               | OfField F \<Rightarrow> Element s (el mod ord_F F))) (keys s)"

definition elements :: "struct \<Rightarrow> element list" where
  "elements s = map snd (elements_dict s)"

text \<open>\<open>x + y == y\<close> and the like, between elements.\<close>

definition eq_E :: "error + element \<Rightarrow> error + element \<Rightarrow> error + bool" where
  "eq_E a b = bindE a (\<lambda>u. bindE b (\<lambda>v. Inr (Element_eq u v)))"

definition find_additive_identity :: "element list \<Rightarrow> error + element option" where
  "find_additive_identity els =
     next_E (\<lambda>x. all_E (\<lambda>y. eq_E (Element_add x y) (Inr y)) els) els"

definition find_multiplicative_identity :: "element list \<Rightarrow> error + element option" where
  "find_multiplicative_identity els =
     next_E (\<lambda>x. all_E (\<lambda>y. eq_E (Element_mul x y) (Inr y)) els) els"

text \<open>
  The attributes \<open>identity_add\<close> and \<open>identity_mul\<close>, set by \<open>__post_init__\<close> only
  when an identity was found: reading a missing attribute raises.
\<close>

definition identity_add :: "struct \<Rightarrow> error + element" where
  "identity_add s =
     bindE (find_additive_identity (elements s))
       (\<lambda>r. case r of None \<Rightarrow> Inl AttributeError | Some e \<Rightarrow> Inr e)"

definition identity_mul :: "struct \<Rightarrow> error + element" where
  "identity_mul s =
     bindE (find_multiplicative_identity (elements s))
       (\<lambda>r. case r of None \<Rightarrow> Inl AttributeError | Some e \<Rightarrow> Inr e)"

text \<open>\<open>__getitem__\<close>: \<open>getattr\<close> with the default \<open>float('nan')\<close>.\<close>

definition getitem :: "struct \<Rightarrow> int \<Rightarrow> error + pyval" where
  "getitem s identity =
     (if identity = 0 then
        bindE (find_additive_identity (elements s))
          (\<lambda>r. case r of None \<Rightarrow> Inr NaN | Some e \<Rightarrow> Inr (Elem e))
      else if identity = 1 then
        bindE (find_multiplicative_identity (elements s))
          (\<lambda>r. case r of None \<Rightarrow> Inr NaN | Some e \<Rightarrow> Inr (Elem e))
      else Inl ValueError)"

text \<open>
  \<open>__call__\<close>: a Structure looks the value up and raises when it is missing; a Field
  reduces it modulo the order first (a missing key of the dictionary is a KeyError).
\<close>

definition call :: "struct \<Rightarrow> int \<Rightarrow> error + element" where
  "call s v =
     (case s of
        OfStructure S \<Rightarrow>
          (case map_of (elements_dict s) v of Some e \<Rightarrow> Inr e | None \<Rightarrow> Inl ValueError)
      | OfField F \<Rightarrow>
          if ord_F F = 0 then Inl ZeroDivisionError
          else (case map_of (elements_dict s) (v mod ord_F F) of
                  Some e \<Rightarrow> Inr e | None \<Rightarrow> Inl KeyError))"

text \<open>\<open>operands(n)\<close>: \<open>itertools.product\<close> of the sorted elements, last position fastest.\<close>

fun product_repeat :: "'a list \<Rightarrow> nat \<Rightarrow> 'a list list" where
  "product_repeat xs 0 = [[]]"
| "product_repeat xs (Suc n) = concat (map (\<lambda>x. map ((#) x) (product_repeat xs n)) xs)"

definition operands :: "struct \<Rightarrow> nat \<Rightarrow> element list list" where
  "operands s n = product_repeat (sort_key value_of (elements s)) n"

subsection \<open>The methods of Field\<close>

text \<open>
  \<open>add_inv\<close>. The first comparison \<open>other == self[0]\<close> raises unless \<open>self[0]\<close> is
  an element, so the default of \<open>next\<close>, \<open>self[0]\<close> again, is an element whenever it
  is reached.
\<close>

definition add_inv :: "Field \<Rightarrow> element \<Rightarrow> error + element" where
  "add_inv F other =
     bindE (getitem (OfField F) 0) (\<lambda>z.
       case z of
         Elem zero \<Rightarrow>
           if Element_eq other zero then Inr other
           else bindE (next_E (\<lambda>el. bindE (Element_add other el) (\<lambda>r.
                                      bindE (getitem (OfField F) 0) (\<lambda>z'. py_eq (Elem r) z')))
                         (elements (OfField F)))
                  (\<lambda>r. case r of Some el \<Rightarrow> Inr el | None \<Rightarrow> Inr zero)
       | NaN \<Rightarrow> Inl AttributeError
       | PyNone \<Rightarrow> Inl AttributeError)"

text \<open>\<open>mul_inv\<close>, on whatever \<open>pow\<close> hands it.\<close>

definition mul_inv :: "Field \<Rightarrow> pyval \<Rightarrow> error + pyval" where
  "mul_inv F other =
     bindE (getitem (OfField F) 0) (\<lambda>z.
     bindE (py_eq other z) (\<lambda>is_zero.
       if is_zero then Inr NaN
       else
         bindE (getitem (OfField F) 1) (\<lambda>u.
         bindE (py_eq other u) (\<lambda>is_one.
           if is_one then Inr other
           else
             bindE (getitem (OfField F) 1) (\<lambda>dflt.
             bindE (next_E (\<lambda>el. bindE (py_mul other el) (\<lambda>p.
                                    bindE (getitem (OfField F) 1) (\<lambda>u'. py_eq p u')))
                      (elements (OfField F)))
               (\<lambda>r. case r of Some el \<Rightarrow> Inr (Elem el) | None \<Rightarrow> Inr dflt))))))"

text \<open>
  The loop of \<open>pow\<close>, entered with a positive exponent: \<open>exp & 1\<close> is oddness and
  \<open>exp >>= 1\<close> halves.
\<close>

function pow_loop :: "pyval \<Rightarrow> element \<Rightarrow> nat \<Rightarrow> error + pyval" where
  "pow_loop res base exp =
     (if exp = 0 then Inr res
      else
        (case (if odd exp then py_mul res base else Inr res) of
           Inl e \<Rightarrow> Inl e
         | Inr res' \<Rightarrow>
             (case Element_mul base base of
                Inl e \<Rightarrow> Inl e
              | Inr base' \<Rightarrow> pow_loop res' base' (exp div 2))))"
  by pat_completeness auto
termination
  by (relation "measure (\<lambda>(res, base, exp). exp)") auto

declare pow_loop.simps [simp del]

text \<open>
  \<open>base in {self[0], self[1]}\<close>: the set is searched by hash, then by \<open>==\<close>. An
  element entry has the hash of its value; the hash of a \<open>nan\<close> object is its address,
  taken here to differ from the hash of \<open>base\<close>, so that a \<open>nan\<close> entry is never
  compared.
\<close>

definition in_pair :: "element \<Rightarrow> pyval \<Rightarrow> pyval \<Rightarrow> bool" where
  "in_pair base a b =
     list_ex (\<lambda>v. case v of Elem e \<Rightarrow> Element_hash e = Element_hash base \<and> Element_eq e base
                     | NaN \<Rightarrow> False | PyNone \<Rightarrow> False) [a, b]"

text \<open>\<open>pow\<close> for an exponent that is not negative.\<close>

definition pow_nonneg :: "Field \<Rightarrow> element \<Rightarrow> int \<Rightarrow> error + pyval" where
  "pow_nonneg F base exp =
     (if ord_F F \<in> {0, 1} then getitem (OfField F) 0
      else if exp = 0 then getitem (OfField F) 1
      else
        bindE (getitem (OfField F) 0) (\<lambda>z.
        bindE (getitem (OfField F) 1) (\<lambda>u.
          if in_pair base z u then Inr (Elem base)
          else bindE (getitem (OfField F) 1) (\<lambda>res. pow_loop res base (nat exp)))))"

text \<open>\<open>pow\<close>: a negative exponent makes one recursive call, with \<open>-exp > 0\<close>.\<close>

definition pow :: "Field \<Rightarrow> element \<Rightarrow> int \<Rightarrow> error + pyval" where
  "pow F base exp =
     (if exp < 0 then bindE (pow_nonneg F base (- exp)) (mul_inv F)
      else pow_nonneg F base exp)"

text \<open>
  \<open>__neg__\<close>: the Element of a Structure applies \<open>inv\<close>, the Element of a Field asks
  \<open>add_inv\<close>.
\<close>

definition Element_neg :: "element \<Rightarrow> error + element" where
  "Element_neg x =
     (case instance_of x of
        OfStructure S \<Rightarrow> Element_init (instance_of x) (inv_S S (value_of x))
      | OfField F \<Rightarrow> add_inv F x)"

subsection \<open>The predefined structures\<close>

text \<open>
  Modelled from the spec: the gates \<open>OR\<close>, \<open>AND\<close>, \<open>NOT\<close> are wrapped by the decorator
  \<open>cast\<close> of the package \<open>utils.decorating\<close>, which is not part of the source. The
  bodies are those of gates/binary.py and gates/unary.py (\<open>a or b\<close>, \<open>a and b\<close>,
  \<open>not a\<close>) on integers, with the result an integer again, as the spec has it for the
  Boolean structure (carrier \<open>{0,1}\<close>, value 0 false and 1 true) and as the tables
  printed in the doctests of functions.py show.
\<close>

definition OR :: "int \<Rightarrow> int \<Rightarrow> int" where
  "OR a b = (if a \<noteq> 0 then a else b)"

definition AND :: "int \<Rightarrow> int \<Rightarrow> int" where
  "AND a b = (if a \<noteq> 0 then b else a)"

definition NOT :: "int \<Rightarrow> int" where
  "NOT a = (if a \<noteq> 0 then 0 else 1)"

definition B :: Structure where
  "B = \<lparr>name_S = ''B'', set_S = [0, 1], add_S = OR, mul_S = AND, inv_S = NOT\<rparr>"

text \<open>\<open>math.isqrt\<close> on a natural number: the largest \<open>r\<close> with \<open>r * r \<le> n\<close>.\<close>

fun isqrt :: "nat \<Rightarrow> nat" where
  "isqrt 0 = 0"
| "isqrt (Suc n) = (let r = isqrt n in if (r + 1) * (r + 1) \<le> Suc n then r + 1 else r)"

text \<open>The decimal digits of a natural number, for the name \<open>f'D{n}'\<close>.\<close>

fun str_nat :: "nat \<Rightarrow> string" where
  "str_nat n =
     (if n < 10 then [char_of (48 + n)] else str_nat (n div 10) @ [char_of (48 + n mod 10)])"

declare str_nat.simps [simp del]

text \<open>
  The factory \<open>D\<close>. \<open>isqrt\<close> raises on a negative number. The set comprehension
  collects \<open>k\<close> and \<open>n // k\<close> for every \<open>k\<close> in \<open>range(1, isqrt(n) + 1)\<close> that divides
  \<open>n\<close>.
\<close>

definition divisors :: "int \<Rightarrow> int list" where
  "divisors n =
     remdups (concat (map (\<lambda>k. [k, n div k])
                        (filter (\<lambda>k. n mod k = 0) [1..int (isqrt (nat n))])))"

definition D :: "int \<Rightarrow> error + Structure" where
  "D n =
     (if n < 0 then Inl ValueError
      else Inr \<lparr>name_S = ''D'' @ str_nat (nat n), set_S = divisors n,
                add_S = lcm, mul_S = gcd, inv_S = (\<lambda>divisor. n div divisor)\<rparr>)"

definition GF :: "string \<Rightarrow> int \<Rightarrow> Field" where
  "GF nm p = \<lparr>name_F = nm, ord_F = p, add_F = (+), mul_F = (*)\<rparr>"

definition GF2 :: Field where "GF2 = GF ''GF2'' 2"
definition GF3 :: Field where "GF3 = GF ''GF3'' 3"
definition GF5 :: Field where "GF5 = GF ''GF5'' 5"
definition GF7 :: Field where "GF7 = GF ''GF7'' 7"
definition GF11 :: Field where "GF11 = GF ''GF11'' 11"
definition GF13 :: Field where "GF13 = GF ''GF13'' 13"
definition GF17 :: Field where "GF17 = GF ''GF17'' 17"
definition GF19 :: Field where "GF19 = GF ''GF19'' 19"

section \<open>Axiom verification (functions.py)\<close>

text \<open>The operators between subexpressions that may already have raised.\<close>

definition addE :: "error + element \<Rightarrow> error + element \<Rightarrow> error + element" where
  "addE a b = bindE a (\<lambda>u. bindE b (\<lambda>v. Element_add u v))"

definition mulE :: "error + element \<Rightarrow> error + element \<Rightarrow> error + element" where
  "mulE a b = bindE a (\<lambda>u. bindE b (\<lambda>v. Element_mul u v))"

definition negE :: "error + element \<Rightarrow> error + element" where
  "negE a = bindE a Element_neg"

text \<open>An element expression compared with \<open>struct[i]\<close>.\<close>

definition eq_item :: "error + element \<Rightarrow> struct \<Rightarrow> int \<Rightarrow> error + bool" where
  "eq_item a s i = bindE a (\<lambda>l. bindE (getitem s i) (\<lambda>r. py_eq (Elem l) r))"

definition ne_item :: "error + element \<Rightarrow> struct \<Rightarrow> int \<Rightarrow> error + bool" where
  "ne_item a s i = bindE a (\<lambda>l. bindE (getitem s i) (\<lambda>r. py_ne (Elem l) r))"

definition is_commutative :: "struct \<Rightarrow> error + bool" where
  "is_commutative s =
     all_E (\<lambda>t. case t of
                  [x, y] \<Rightarrow>
                    andE (eq_E (Element_add x y) (Element_add y x))
                         (eq_E (Element_mul x y) (Element_mul y x))
                | _ \<Rightarrow> Inl ValueError)
       (operands s 2)"

definition is_distributive :: "struct \<Rightarrow> error + bool" where
  "is_distributive s =
     all_E (\<lambda>t. case t of
                  [x, y, z] \<Rightarrow>
                    andE (eq_E (mulE (Inr x) (Element_add y z))
                               (addE (Element_mul x y) (Element_mul x z)))
                         (eq_E (addE (Inr x) (Element_mul y z))
                               (mulE (Element_add x y) (Element_add x z)))
                | _ \<Rightarrow> Inl ValueError)
       (operands s 3)"

text \<open>\<open>x is not None\<close>.\<close>

fun is_not_None :: "pyval \<Rightarrow> bool" where
  "is_not_None PyNone = False"
| "is_not_None (Elem e) = True"
| "is_not_None NaN = True"

definition has_identities :: "struct \<Rightarrow> error + bool" where
  "has_identities s =
     andE (bindE (getitem s 0) (\<lambda>a. Inr (is_not_None a)))
          (bindE (getitem s 1) (\<lambda>b. Inr (is_not_None b)))"

definition is_complementary :: "struct \<Rightarrow> error + bool" where
  "is_complementary s =
     all_E (\<lambda>x. andE (eq_item (addE (Inr x) (Element_neg x)) s 1)
                     (eq_item (mulE (Inr x) (Element_neg x)) s 0))
       (elements s)"

definition is_boolean_algebraic :: "struct \<Rightarrow> error + bool" where
  "is_boolean_algebraic s =
     andE (is_commutative s)
       (andE (is_distributive s)
          (andE (has_identities s) (is_complementary s)))"

text \<open>The generator's filter \<open>if a != struct[0] and b != struct[0]\<close> runs before the test.\<close>

definition no_zero_dividers :: "struct \<Rightarrow> error + bool" where
  "no_zero_dividers s =
     all_E (\<lambda>t. case t of
                  [a, b] \<Rightarrow>
                    bindE (andE (ne_item (Inr a) s 0) (ne_item (Inr b) s 0))
                      (\<lambda>keep. if keep then ne_item (Element_mul a b) s 0 else Inr True)
                | _ \<Rightarrow> Inl ValueError)
       (operands s 2)"

text \<open>
  \<open>prime_power\<close> comes from the package \<open>math_utils\<close>, which is not part of the
  source: it is a parameter here.
\<close>

definition is_finite_field :: "(nat \<Rightarrow> nat \<times> nat) \<Rightarrow> struct \<Rightarrow> error + bool" where
  "is_finite_field prime_power s =
     andE (Inr (prime_power (length (elements s)) \<noteq> (0, 0)))
       (andE (is_commutative s)
          (andE (has_identities s) (no_zero_dividers s)))"

section \<open>Canonical forms (canonical.py)\<close>

text \<open>
  A formula is an opaque callable of \<open>n\<close> parameters. \<open>DNF\<close> and \<open>CNF\<close> only test its
  result for truth (\<open>if self.formula(*operands)\<close>), so a formula is given by that truth
  value as a function of the operand tuple; \<open>n\<close> stands for
  \<open>len(signature(self.formula).parameters)\<close>.
\<close>

type_synonym formula = "element list \<Rightarrow> bool"

text \<open>
  \<open>sum(items, start=acc)\<close> and \<open>math.prod(items, start=acc)\<close> over a generator whose
  items are computed by \<open>term\<close> as the fold asks for them.
\<close>

fun fold_E :: "(element \<Rightarrow> element \<Rightarrow> error + element) \<Rightarrow> ('a \<Rightarrow> error + element) \<Rightarrow>
    element \<Rightarrow> 'a list \<Rightarrow> error + element" where
  "fold_E oper term acc [] = Inr acc"
| "fold_E oper term acc (t # ts) =
     (case term t of
        Inl e \<Rightarrow> Inl e
      | Inr v \<Rightarrow> (case oper acc v of Inl e \<Rightarrow> Inl e | Inr acc' \<Rightarrow> fold_E oper term acc' ts))"

definition py_sum :: "('a \<Rightarrow> error + element) \<Rightarrow> element \<Rightarrow> 'a list \<Rightarrow> error + element" where
  "py_sum term start items = fold_E Element_add term start items"

definition py_prod :: "('a \<Rightarrow> error + element) \<Rightarrow> element \<Rightarrow> 'a list \<Rightarrow> error + element" where
  "py_prod term start items = fold_E Element_mul term start items"

text \<open>\<open>DNF.__iter__\<close>: the minterms.\<close>

definition DNF_iter :: "struct \<Rightarrow> formula \<Rightarrow> nat \<Rightarrow> element list list" where
  "DNF_iter s f n = filter (\<lambda>ops. f ops) (operands s n)"

text \<open>\<open>DNF.__call__\<close>.\<close>

definition DNF_call :: "struct \<Rightarrow> formula \<Rightarrow> nat \<Rightarrow> error + element" where
  "DNF_call s f n =
     bindE (identity_add s) (\<lambda>zero.
       py_sum (\<lambda>ops. bindE (identity_mul s) (\<lambda>one. py_prod Inr one ops)) zero (DNF_iter s f n))"

text \<open>\<open>CNF.__iter__\<close>: the rows where the formula is falsy, and the maxterms made of them.\<close>

definition CNF_rows :: "struct \<Rightarrow> formula \<Rightarrow> nat \<Rightarrow> element list list" where
  "CNF_rows s f n = filter (\<lambda>ops. \<not> f ops) (operands s n)"

definition CNF_iter :: "struct \<Rightarrow> formula \<Rightarrow> nat \<Rightarrow> error + element list list" where
  "CNF_iter s f n = map_E (map_E Element_neg) (CNF_rows s f n)"

text \<open>
  \<open>CNF.__call__\<close>: the generator negates a row when \<open>prod\<close> asks for the next maxterm.
\<close>

definition CNF_call :: "struct \<Rightarrow> formula \<Rightarrow> nat \<Rightarrow> error + element" where
  "CNF_call s f n =
     bindE (identity_mul s) (\<lambda>one.
       py_prod (\<lambda>ops. bindE (map_E Element_neg ops) (\<lambda>maxterm.
                       bindE (identity_add s) (\<lambda>zero. py_sum Inr zero maxterm)))
         one (CNF_rows s f n))"

text \<open>The formula of the doctest of canonical.py, \<open>lambda x, y, z: -(x + y + z)\<close>.\<close>

definition f_nor3 :: formula where
  "f_nor3 t =
     (case t of
        [x, y, z] \<Rightarrow>
          (case negE (addE (Element_add x y) (Inr z)) of
             Inr r \<Rightarrow> Element_bool r
           | Inl e \<Rightarrow> False)
      | _ \<Rightarrow> False)"

section \<open>Inputs without identities\<close>

text \<open>
  Two structures on the carrier \<open>{0, 1}\<close> with closed operations. In \<open>no_mul_identity\<close>
  the product is constantly 0, so no element is a multiplicative identity; in
  \<open>no_identities\<close> the sum is constantly 0 as well.
\<close>

definition no_mul_identity :: Structure where
  "no_mul_identity =
     \<lparr>name_S = ''Y'', set_S = [0, 1], add_S = OR, mul_S = (\<lambda>a b. 0), inv_S = NOT\<rparr>"

definition no_identities :: Structure where
  "no_identities =
     \<lparr>name_S = ''Z'', set_S = [0, 1], add_S = (\<lambda>a b. 0), mul_S = (\<lambda>a b. 0), inv_S = NOT\<rparr>"

text \<open>The structure of the doctest of functions.py, \<open>D6 = D(6)\<close>.\<close>

definition D6 :: Structure where
  "D6 = \<lparr>name_S = ''D6'', set_S = [1, 6, 2, 3], add_S = lcm, mul_S = gcd,
          inv_S = (\<lambda>divisor. 6 div divisor)\<rparr>"

section \<open>The closure property\<close>

text \<open>
  The closure test of the spec: \<open>el in struct.elements\<close> looks an element up in the set
  by hash and \<open>==\<close>, and a structure is closed when the sum and the product of any two
  of its elements and the negation of any of them are returned and found there.
\<close>

definition member_elements :: "struct \<Rightarrow> element \<Rightarrow> bool" where
  "member_elements s el =
     list_ex (\<lambda>e. Element_hash e = Element_hash el \<and> Element_eq e el) (elements s)"

definition closed_result :: "struct \<Rightarrow> error + element \<Rightarrow> bool" where
  "closed_result s r = (case r of Inr el \<Rightarrow> member_elements s el | Inl e \<Rightarrow> False)"

definition closure :: "struct \<Rightarrow> bool" where
  "closure s =
     list_all (\<lambda>x. closed_result s (Element_neg x)
                  \<and> list_all (\<lambda>y. closed_result s (Element_add x y)
                                 \<and> closed_result s (Element_mul x y)) (elements s))
       (elements s)"

section \<open>Degenerate fields\<close>

text \<open>Fields of order 1 and 0 with the ordinary operations, as \<open>pow\<close> provides for.\<close>

definition order_one :: Field where
  "order_one = GF ''Z1'' 1"

definition order_zero :: Field where
  "order_zero = GF ''Z0'' 0"

section \<open>Properties\<close>

subsection \<open>Wrapping raw values\<close>

lemma map_of_keys:
  "map_of (map (\<lambda>k. (k, g k)) ks) v = (if v \<in> set ks then Some (g v) else None)"
  by (induction ks) auto

lemma call_Structure:
  "call (OfStructure S) v =
     (if v \<in> set (set_S S) then Inr (Element (OfStructure S) v) else Inl ValueError)"
  by (simp add: call_def elements_dict_def keys_def map_of_keys)

lemma call_Field:
  assumes "0 < ord_F F"
  shows "call (OfField F) v = Inr (Element (OfField F) (v mod ord_F F))"
proof -
  have "v mod ord_F F \<in> set [0..ord_F F - 1]" using assms by simp
  then show ?thesis using assms
    by (simp add: call_def elements_dict_def keys_def map_of_keys)
qed

lemma call_key:
  assumes "v \<in> set (keys s)"
  shows "call s v = Inr (Element s v)"
proof (cases s)
  case (OfStructure S)
  then show ?thesis using assms by (simp add: call_Structure keys_def)
next
  case (OfField F)
  with assms have "0 \<le> v" "v < ord_F F" by (simp_all add: keys_def)
  then show ?thesis using OfField by (simp add: call_Field)
qed

text \<open>The calls of \<open>_generate_element\<close> made by \<open>__post_init__\<close> all return.\<close>

lemma elements_eq: "elements s = map (Element s) (keys s)"
proof (cases s)
  case (OfStructure S)
  then show ?thesis by (simp add: elements_def elements_dict_def comp_def)
next
  case (OfField F)
  then show ?thesis by (simp add: elements_def elements_dict_def comp_def keys_def)
qed

lemma map_E_Inr:
  "(\<And>x. x \<in> set xs \<Longrightarrow> g x = Inr (h x)) \<Longrightarrow> map_E g xs = Inr (map h xs)"
  by (induction xs) auto

lemma post_init_elements: "map_E (generate_element s) (keys s) = Inr (elements s)"
  unfolding elements_eq
proof (rule map_E_Inr)
  fix v assume v: "v \<in> set (keys s)"
  show "generate_element s v = Inr (Element s v)"
  proof (cases s)
    case (OfStructure S)
    then show ?thesis using v by (simp add: generate_element_def Element_init_def keys_def)
  next
    case (OfField F)
    with v have "0 \<le> v" "v < ord_F F" by (simp_all add: keys_def)
    then show ?thesis using OfField by (simp add: generate_element_def Element_init_def)
  qed
qed

text \<open>
  C6: a Structure wraps a value of its set and raises ValueError on any other; a Field
  of positive order wraps every integer, reduced modulo the order.
\<close>

theorem call_Structure_raises_Field_reduces:
  "call (OfStructure S) v =
     (if v \<in> set (set_S S) then Inr (Element (OfStructure S) v) else Inl ValueError)
   \<and> (0 < ord_F F \<longrightarrow> call (OfField F) w = Inr (Element (OfField F) (w mod ord_F F)))"
  by (simp add: call_Structure call_Field)

theorem call_Structure_raises_Field_reduces_witness:
  "0 < ord_F GF7
   \<and> call (OfStructure B) 1 = Inr (Element (OfStructure B) 1)
   \<and> call (OfStructure B) 2 = Inl ValueError
   \<and> call (OfField GF7) (- 3) = Inr (Element (OfField GF7) 4)
   \<and> call (OfField GF7) 23 = Inr (Element (OfField GF7) 2)"
  using call_Structure_raises_Field_reduces [where S = B and v = 1 and F = GF7 and w = "- 3"]
    call_Structure_raises_Field_reduces [where S = B and v = 2 and F = GF7 and w = 23]
  by (simp add: B_def GF7_def GF_def)

text \<open>
  C10: elements wrapped by any two structures compare, order and hash by their raw
  values alone, whoever owns them.
\<close>

theorem Element_comparison_ignores_owner:
  assumes "v \<in> set (keys s)" and "w \<in> set (keys t)"
  shows "\<exists>x y. call s v = Inr x \<and> call t w = Inr y
           \<and> instance_of x = s \<and> instance_of y = t
           \<and> py_eq (Elem x) (Elem y) = Inr (v = w)
           \<and> Element_eq x y = (v = w)
           \<and> Element_lt x y = (v < w)
           \<and> Element_hash x = v \<and> Element_hash y = w
           \<and> (v = w \<longrightarrow> Element_hash x = Element_hash y)"
  using assms
  by (simp add: call_key Element_eq_def Element_lt_def Element_hash_def)

theorem Element_comparison_ignores_owner_witness:
  "1 \<in> set (keys (OfStructure B)) \<and> 1 \<in> set (keys (OfField GF7))
   \<and> (\<exists>x y. call (OfStructure B) 1 = Inr x \<and> call (OfField GF7) 1 = Inr y
          \<and> x \<noteq> y \<and> Element_eq x y \<and> Element_hash x = Element_hash y)"
proof -
  have k: "1 \<in> set (keys (OfStructure B))" "1 \<in> set (keys (OfField GF7))"
    by (simp_all add: keys_def B_def GF7_def GF_def)
  from Element_comparison_ignores_owner [OF k]
  obtain x y where "call (OfStructure B) 1 = Inr x" "call (OfField GF7) 1 = Inr y"
    "instance_of x = OfStructure B" "instance_of y = OfField GF7"
    "Element_eq x y" "Element_hash x = Element_hash y"
    by auto
  then show ?thesis using k by auto
qed

subsection \<open>The Boolean structure\<close>

lemma bindE_simps [simp]: "bindE (Inl e) f = Inl e" "bindE (Inr v) f = f v"
  by (simp_all add: bindE_def)

lemma andE_simps [simp]:
  "andE (Inl e) b = Inl e" "andE (Inr True) b = b" "andE (Inr False) b = Inr False"
  by (simp_all add: andE_def)

lemma elements_B:
  "elements (OfStructure B) = [Element (OfStructure B) 0, Element (OfStructure B) 1]"
  by (simp add: elements_eq keys_def B_def)

lemma Element_add_B:
  "Element_add (Element (OfStructure B) a) y = Inr (Element (OfStructure B) (OR a (value_of y)))"
  by (simp add: Element_add_def Element_init_def B_def)

lemma Element_mul_B:
  "Element_mul (Element (OfStructure B) a) y = Inr (Element (OfStructure B) (AND a (value_of y)))"
  by (simp add: Element_mul_def Element_init_def B_def)

lemma Element_neg_B:
  "Element_neg (Element (OfStructure B) a) = Inr (Element (OfStructure B) (NOT a))"
  by (simp add: Element_neg_def Element_init_def B_def)

lemma identity_add_B: "identity_add (OfStructure B) = Inr (Element (OfStructure B) 0)"
  by (simp add: identity_add_def find_additive_identity_def elements_B Element_add_B
      eq_E_def Element_eq_def OR_def)

lemma identity_mul_B: "identity_mul (OfStructure B) = Inr (Element (OfStructure B) 1)"
  by (simp add: identity_mul_def find_multiplicative_identity_def elements_B Element_mul_B
      eq_E_def Element_eq_def AND_def)

lemma operands_B:
  "operands (OfStructure B) n =
     product_repeat [Element (OfStructure B) 0, Element (OfStructure B) 1] n"
  by (simp add: operands_def elements_B)

subsection \<open>Canonical forms\<close>

text \<open>
  C7: in a structure with both identities, a formula true on every operand tuple has no
  maxterm and its CNF reduces to the multiplicative identity; a formula false on every
  tuple has no minterm and its DNF reduces to the additive identity.
\<close>

theorem empty_forms_reduce_to_identities:
  assumes "identity_add s = Inr zero" and "identity_mul s = Inr one"
  shows "((\<forall>t \<in> set (operands s n). f t) \<longrightarrow>
            CNF_iter s f n = Inr [] \<and> CNF_call s f n = Inr one)
       \<and> ((\<forall>t \<in> set (operands s n). \<not> f t) \<longrightarrow>
            DNF_iter s f n = [] \<and> DNF_call s f n = Inr zero)"
proof (intro conjI impI)
  assume "\<forall>t \<in> set (operands s n). f t"
  then have rows: "CNF_rows s f n = []" by (simp add: CNF_rows_def)
  show "CNF_iter s f n = Inr []" by (simp add: CNF_iter_def rows)
  show "CNF_call s f n = Inr one" by (simp add: CNF_call_def assms rows py_prod_def)
next
  assume "\<forall>t \<in> set (operands s n). \<not> f t"
  then show minterms: "DNF_iter s f n = []" by (simp add: DNF_iter_def)
  then show "DNF_call s f n = Inr zero" by (simp add: DNF_call_def assms py_sum_def)
qed

theorem empty_forms_reduce_to_identities_witness:
  "identity_add (OfStructure B) = Inr (Element (OfStructure B) 0)
   \<and> identity_mul (OfStructure B) = Inr (Element (OfStructure B) 1)
   \<and> CNF_iter (OfStructure B) (\<lambda>t. True) 2 = Inr []
   \<and> CNF_call (OfStructure B) (\<lambda>t. True) 2 = Inr (Element (OfStructure B) 1)
   \<and> DNF_iter (OfStructure B) (\<lambda>t. False) 2 = []
   \<and> DNF_call (OfStructure B) (\<lambda>t. False) 2 = Inr (Element (OfStructure B) 0)"
  using empty_forms_reduce_to_identities [OF identity_add_B identity_mul_B, of 2 "\<lambda>t. True"]
    empty_forms_reduce_to_identities [OF identity_add_B identity_mul_B, of 2 "\<lambda>t. False"]
  by (simp add: identity_add_B identity_mul_B)

subsection \<open>The operand space\<close>

lemma set_product_repeat:
  "set (product_repeat xs n) = {t. length t = n \<and> set t \<subseteq> set xs}"
proof (induction n)
  case 0
  then show ?case by auto
next
  case (Suc n)
  show ?case
  proof (rule set_eqI)
    fix t
    show "t \<in> set (product_repeat xs (Suc n)) \<longleftrightarrow> t \<in> {t. length t = Suc n \<and> set t \<subseteq> set xs}"
      using Suc by (cases t) auto
  qed
qed

lemma length_concat_const:
  "(\<And>x. x \<in> set xs \<Longrightarrow> length (g x) = k) \<Longrightarrow> length (concat (map g xs)) = length xs * k"
  by (induction xs) auto

lemma length_product_repeat: "length (product_repeat xs n) = length xs ^ n"
  by (induction n) (simp_all add: length_concat_const)

lemma distinct_prefixed:
  "distinct L \<Longrightarrow> distinct xs \<Longrightarrow> distinct (concat (map (\<lambda>x. map ((#) x) L) xs))"
  by (induction xs) (auto simp: distinct_map)

lemma distinct_product_repeat: "distinct xs \<Longrightarrow> distinct (product_repeat xs n)"
  by (induction n) (simp_all add: distinct_prefixed)

subsection \<open>Reconstruction over the Boolean structure\<close>

lemma fold_add_B:
  assumes "a = 0 \<or> a = 1"
    and "\<And>t. t \<in> set L \<Longrightarrow> term t = Inr (Element (OfStructure B) (g t)) \<and> (g t = 0 \<or> g t = 1)"
  shows "fold_E Element_add term (Element (OfStructure B) a) L =
           Inr (Element (OfStructure B) (if a = 1 \<or> (\<exists>t \<in> set L. g t = 1) then 1 else 0))"
  using assms
proof (induction L arbitrary: a)
  case Nil
  then show ?case by auto
next
  case (Cons t L)
  have t: "term t = Inr (Element (OfStructure B) (g t))" "g t = 0 \<or> g t = 1"
    using Cons.prems(2) [of t] by simp_all
  have step: "OR a (g t) = 0 \<or> OR a (g t) = 1" "OR a (g t) = 1 \<longleftrightarrow> a = 1 \<or> g t = 1"
    using Cons.prems(1) t(2) by (auto simp: OR_def)
  have "fold_E Element_add term (Element (OfStructure B) (OR a (g t))) L =
          Inr (Element (OfStructure B)
                 (if OR a (g t) = 1 \<or> (\<exists>t \<in> set L. g t = 1) then 1 else 0))"
    using Cons.prems(2) by (intro Cons.IH step(1)) simp
  then show ?case by (simp add: t(1) Element_add_B step(2))
qed

lemma fold_mul_B:
  assumes "a = 0 \<or> a = 1"
    and "\<And>t. t \<in> set L \<Longrightarrow> term t = Inr (Element (OfStructure B) (g t)) \<and> (g t = 0 \<or> g t = 1)"
  shows "fold_E Element_mul term (Element (OfStructure B) a) L =
           Inr (Element (OfStructure B) (if a = 1 \<and> (\<forall>t \<in> set L. g t = 1) then 1 else 0))"
  using assms
proof (induction L arbitrary: a)
  case Nil
  then show ?case by auto
next
  case (Cons t L)
  have t: "term t = Inr (Element (OfStructure B) (g t))" "g t = 0 \<or> g t = 1"
    using Cons.prems(2) [of t] by simp_all
  have step: "AND a (g t) = 0 \<or> AND a (g t) = 1" "AND a (g t) = 1 \<longleftrightarrow> a = 1 \<and> g t = 1"
    using Cons.prems(1) t(2) by (auto simp: AND_def)
  have "fold_E Element_mul term (Element (OfStructure B) (AND a (g t))) L =
          Inr (Element (OfStructure B)
                 (if AND a (g t) = 1 \<and> (\<forall>t \<in> set L. g t = 1) then 1 else 0))"
    using Cons.prems(2) by (intro Cons.IH step(1)) simp
  then show ?case by (simp add: t(1) Element_mul_B step(2))
qed

text \<open>The rows of the operand space of \<open>B\<close>, and the row of ones among them.\<close>

lemma row_B:
  assumes "t \<in> set (operands (OfStructure B) n)" and "x \<in> set t"
  shows "x = Element (OfStructure B) (value_of x) \<and> (value_of x = 0 \<or> value_of x = 1)"
  using assms by (auto simp: operands_B set_product_repeat)

lemma ones_row_B: "replicate n (Element (OfStructure B) 1) \<in> set (operands (OfStructure B) n)"
  by (auto simp: operands_B set_product_repeat)

lemma all_ones_B:
  assumes "t \<in> set (operands (OfStructure B) n)"
  shows "(\<forall>x \<in> set t. value_of x = 1) \<longleftrightarrow> t = replicate n (Element (OfStructure B) 1)"
proof
  assume ones: "\<forall>x \<in> set t. value_of x = 1"
  have "length t = n" using assms by (simp add: operands_B set_product_repeat)
  moreover have "\<forall>x \<in> set t. x = Element (OfStructure B) 1"
    using row_B [OF assms] ones by metis
  ultimately show "t = replicate n (Element (OfStructure B) 1)"
    using replicate_length_same [of t "Element (OfStructure B) 1"] by simp
next
  assume "t = replicate n (Element (OfStructure B) 1)"
  then show "\<forall>x \<in> set t. value_of x = 1" by simp
qed

text \<open>The product of a row and the sum of its complement.\<close>

lemma minterm_product_B:
  assumes "t \<in> set (operands (OfStructure B) n)"
  shows "py_prod Inr (Element (OfStructure B) 1) t =
           Inr (Element (OfStructure B)
                  (if t = replicate n (Element (OfStructure B) 1) then 1 else 0))"
proof -
  have "fold_E Element_mul Inr (Element (OfStructure B) 1) t =
          Inr (Element (OfStructure B)
                 (if (1::int) = 1 \<and> (\<forall>x \<in> set t. value_of x = 1) then 1 else 0))"
    using row_B [OF assms] by (intro fold_mul_B) auto
  then show ?thesis by (simp add: py_prod_def all_ones_B [OF assms])
qed

lemma map_E_neg_B:
  assumes "t \<in> set (operands (OfStructure B) n)"
  shows "map_E Element_neg t =
           Inr (map (\<lambda>x. Element (OfStructure B) (NOT (value_of x))) t)"
proof (rule map_E_Inr)
  fix x assume "x \<in> set t"
  then have "x = Element (OfStructure B) (value_of x)" using row_B [OF assms] by simp
  then show "Element_neg x = Inr (Element (OfStructure B) (NOT (value_of x)))"
    using Element_neg_B [of "value_of x"] by simp
qed

lemma maxterm_sum_B:
  assumes "t \<in> set (operands (OfStructure B) n)"
  shows "bindE (map_E Element_neg t) (\<lambda>maxterm.
           bindE (identity_add (OfStructure B)) (\<lambda>zero. py_sum Inr zero maxterm)) =
         Inr (Element (OfStructure B)
                (if t = replicate n (Element (OfStructure B) 1) then 0 else 1))"
proof -
  let ?m = "map (\<lambda>x. Element (OfStructure B) (NOT (value_of x))) t"
  have "fold_E Element_add Inr (Element (OfStructure B) 0) ?m =
          Inr (Element (OfStructure B)
                 (if (0::int) = 1 \<or> (\<exists>y \<in> set ?m. value_of y = 1) then 1 else 0))"
    by (intro fold_add_B) (auto simp: NOT_def)
  moreover have "(\<exists>y \<in> set ?m. value_of y = 1) \<longleftrightarrow> \<not> (\<forall>x \<in> set t. value_of x = 1)"
    using row_B [OF assms] by (fastforce simp: NOT_def)
  ultimately show ?thesis
    by (simp add: map_E_neg_B [OF assms] identity_add_B py_sum_def all_ones_B [OF assms])
qed

lemma DNF_call_B:
  "DNF_call (OfStructure B) f n =
     Inr (Element (OfStructure B)
            (if f (replicate n (Element (OfStructure B) 1)) then 1 else 0))"
proof -
  let ?ones = "replicate n (Element (OfStructure B) 1)"
  let ?g = "\<lambda>t. if t = ?ones then 1 else (0::int)"
  let ?L = "DNF_iter (OfStructure B) f n"
  have "fold_E Element_add (\<lambda>ops. py_prod Inr (Element (OfStructure B) 1) ops)
          (Element (OfStructure B) 0) ?L =
        Inr (Element (OfStructure B)
               (if (0::int) = 1 \<or> (\<exists>t \<in> set ?L. ?g t = 1) then 1 else 0))"
    by (intro fold_add_B) (auto simp: DNF_iter_def minterm_product_B)
  moreover have "(\<exists>t \<in> set ?L. ?g t = 1) \<longleftrightarrow> f ?ones"
    using ones_row_B [of n] by (auto simp: DNF_iter_def)
  ultimately show ?thesis
    by (simp add: DNF_call_def identity_add_B identity_mul_B py_sum_def)
qed

lemma CNF_call_B:
  "CNF_call (OfStructure B) f n =
     Inr (Element (OfStructure B)
            (if f (replicate n (Element (OfStructure B) 1)) then 1 else 0))"
proof -
  let ?ones = "replicate n (Element (OfStructure B) 1)"
  let ?g = "\<lambda>t. if t = ?ones then 0 else (1::int)"
  let ?L = "CNF_rows (OfStructure B) f n"
  have "fold_E Element_mul
          (\<lambda>ops. bindE (map_E Element_neg ops) (\<lambda>maxterm.
                    bindE (identity_add (OfStructure B)) (\<lambda>zero. py_sum Inr zero maxterm)))
          (Element (OfStructure B) 1) ?L =
        Inr (Element (OfStructure B)
               (if (1::int) = 1 \<and> (\<forall>t \<in> set ?L. ?g t = 1) then 1 else 0))"
    by (intro fold_mul_B) (auto simp: CNF_rows_def maxterm_sum_B)
  moreover have "(\<forall>t \<in> set ?L. ?g t = 1) \<longleftrightarrow> f ?ones"
    using ones_row_B [of n] by (auto simp: CNF_rows_def)
  ultimately show ?thesis
    by (simp add: CNF_call_def identity_mul_B py_prod_def)
qed

lemma f_nor3_B:
  "f_nor3 [Element (OfStructure B) a, Element (OfStructure B) b, Element (OfStructure B) c] =
     (NOT (OR (OR a b) c) \<noteq> 0)"
  by (simp add: f_nor3_def negE_def addE_def Element_add_B Element_neg_B Element_bool_def)

text \<open>
  C1, as stated, fails: for the formula of the doctest, true on the row (0, 0, 0), both
  reconstructions return the falsy element \<open>B(0)\<close>.
\<close>

theorem reconstruction_differs_from_formula:
  "[Element (OfStructure B) 0, Element (OfStructure B) 0, Element (OfStructure B) 0]
     \<in> set (operands (OfStructure B) 3)
   \<and> f_nor3 [Element (OfStructure B) 0, Element (OfStructure B) 0, Element (OfStructure B) 0]
   \<and> DNF_call (OfStructure B) f_nor3 3 = Inr (Element (OfStructure B) 0)
   \<and> CNF_call (OfStructure B) f_nor3 3 = Inr (Element (OfStructure B) 0)
   \<and> \<not> Element_bool (Element (OfStructure B) 0)"
  by (simp add: DNF_call_B CNF_call_B f_nor3_B operands_B set_product_repeat
      eval_nat_numeral NOT_def OR_def Element_bool_def)

text \<open>
  C1, amended: over the Boolean structure, \<open>DNF.__call__\<close> and \<open>CNF.__call__\<close> both
  return \<open>B(1)\<close> when the formula is true on the row of ones and \<open>B(0)\<close> otherwise,
  whatever the formula and its arity.
\<close>

theorem reconstruction_is_value_at_ones:
  "DNF_call (OfStructure B) f n =
     Inr (Element (OfStructure B)
            (if f (replicate n (Element (OfStructure B) 1)) then 1 else 0))
   \<and> CNF_call (OfStructure B) f n =
     Inr (Element (OfStructure B)
            (if f (replicate n (Element (OfStructure B) 1)) then 1 else 0))"
  by (simp add: DNF_call_B CNF_call_B)

theorem reconstruction_is_value_at_ones_witness:
  "DNF_call (OfStructure B) f_nor3 3 = Inr (Element (OfStructure B) 0)
   \<and> CNF_call (OfStructure B) f_nor3 3 = Inr (Element (OfStructure B) 0)
   \<and> DNF_call (OfStructure B) (\<lambda>t. \<not> f_nor3 t) 3 = Inr (Element (OfStructure B) 1)
   \<and> CNF_call (OfStructure B) (\<lambda>t. \<not> f_nor3 t) 3 = Inr (Element (OfStructure B) 1)"
  using reconstruction_is_value_at_ones [of f_nor3 3]
    reconstruction_is_value_at_ones [of "\<lambda>t. \<not> f_nor3 t" 3]
  by (simp add: f_nor3_B eval_nat_numeral NOT_def OR_def)

subsection \<open>Minterms and maxterms share out the rows\<close>

lemma neg_row_B:
  assumes "t \<in> set (operands (OfStructure B) n)"
  shows "map (\<lambda>x. Element (OfStructure B) (NOT (value_of x))) t \<in> set (operands (OfStructure B) n)"
    and "map (\<lambda>x. Element (OfStructure B) (NOT (value_of x)))
           (map (\<lambda>x. Element (OfStructure B) (NOT (value_of x))) t) = t"
proof -
  show "map (\<lambda>x. Element (OfStructure B) (NOT (value_of x))) t \<in> set (operands (OfStructure B) n)"
    using assms by (auto simp: operands_B set_product_repeat NOT_def)
  have "Element (OfStructure B) (NOT (NOT (value_of x))) = x" if "x \<in> set t" for x
  proof (cases x)
    case (Element s v)
    with row_B [OF assms that] have "s = OfStructure B" "v = 0 \<or> v = 1" by simp_all
    then show ?thesis using Element by (auto simp: NOT_def)
  qed
  then show "map (\<lambda>x. Element (OfStructure B) (NOT (value_of x)))
           (map (\<lambda>x. Element (OfStructure B) (NOT (value_of x))) t) = t"
    by (simp add: map_idI)
qed

lemma neg_row_inj_B:
  "inj_on (map (\<lambda>x. Element (OfStructure B) (NOT (value_of x)))) (set (operands (OfStructure B) n))"
  by (rule inj_on_inverseI [where g = "map (\<lambda>x. Element (OfStructure B) (NOT (value_of x)))"])
    (erule neg_row_B(2))

lemma map_E_neg_rows_B:
  assumes "set L \<subseteq> set (operands (OfStructure B) n)"
  shows "map_E (map_E Element_neg) L =
           Inr (map (map (\<lambda>x. Element (OfStructure B) (NOT (value_of x)))) L)"
proof (rule map_E_Inr)
  fix t assume "t \<in> set L"
  then have "t \<in> set (operands (OfStructure B) n)" using assms by auto
  then show "map_E Element_neg t = Inr (map (\<lambda>x. Element (OfStructure B) (NOT (value_of x))) t)"
    by (rule map_E_neg_B)
qed

lemma CNF_iter_B:
  "CNF_iter (OfStructure B) f n =
     Inr (map (map (\<lambda>x. Element (OfStructure B) (NOT (value_of x)))) (CNF_rows (OfStructure B) f n))"
  unfolding CNF_iter_def by (rule map_E_neg_rows_B) (auto simp: CNF_rows_def)

lemma DNF_iter_nor3:
  "DNF_iter (OfStructure B) f_nor3 3 =
     [[Element (OfStructure B) 0, Element (OfStructure B) 0, Element (OfStructure B) 0]]"
  by (simp add: DNF_iter_def operands_B eval_nat_numeral f_nor3_B NOT_def OR_def)

lemma CNF_iter_nor3:
  "CNF_iter (OfStructure B) f_nor3 3 =
     Inr (map (map (Element (OfStructure B)))
            [[1, 1, 0], [1, 0, 1], [1, 0, 0], [0, 1, 1], [0, 1, 0], [0, 0, 1], [0, 0, 0]])"
  by (simp add: CNF_iter_B CNF_rows_def operands_B eval_nat_numeral f_nor3_B NOT_def OR_def)

text \<open>
  C2, as stated, fails in its last clause: for the formula of the doctest the seven
  maxterms of the CNF, negated componentwise, are the seven rows where the formula is
  false, and the only one of the eight rows that is not a maxterm is (1, 1, 1); neither
  is the minterm set of the DNF, which holds the row (0, 0, 0) alone.
\<close>

theorem negated_maxterms_are_not_minterms:
  "map_sum id (map (map value_of)) (CNF_iter (OfStructure B) f_nor3 3) =
     Inr [[1, 1, 0], [1, 0, 1], [1, 0, 0], [0, 1, 1], [0, 1, 0], [0, 0, 1], [0, 0, 0]]
   \<and> map_sum id (map (map value_of))
       (bindE (CNF_iter (OfStructure B) f_nor3 3) (map_E (map_E Element_neg))) =
     Inr [[0, 0, 1], [0, 1, 0], [0, 1, 1], [1, 0, 0], [1, 0, 1], [1, 1, 0], [1, 1, 1]]
   \<and> map (map value_of) (operands (OfStructure B) 3) =
     [[0, 0, 0], [0, 0, 1], [0, 1, 0], [0, 1, 1], [1, 0, 0], [1, 0, 1], [1, 1, 0], [1, 1, 1]]
   \<and> map (map value_of) (DNF_iter (OfStructure B) f_nor3 3) = [[0, 0, 0]]"
proof (intro conjI)
  show "map_sum id (map (map value_of)) (CNF_iter (OfStructure B) f_nor3 3) =
     Inr [[1, 1, 0], [1, 0, 1], [1, 0, 0], [0, 1, 1], [0, 1, 0], [0, 0, 1], [0, 0, 0]]"
    by (simp add: CNF_iter_nor3)
  show "map_sum id (map (map value_of))
       (bindE (CNF_iter (OfStructure B) f_nor3 3) (map_E (map_E Element_neg))) =
     Inr [[0, 0, 1], [0, 1, 0], [0, 1, 1], [1, 0, 0], [1, 0, 1], [1, 1, 0], [1, 1, 1]]"
    by (simp add: CNF_iter_nor3 Element_neg_B NOT_def)
  show "map (map value_of) (operands (OfStructure B) 3) =
     [[0, 0, 0], [0, 0, 1], [0, 1, 0], [0, 1, 1], [1, 0, 0], [1, 0, 1], [1, 1, 0], [1, 1, 1]]"
    by (simp add: operands_B eval_nat_numeral)
  show "map (map value_of) (DNF_iter (OfStructure B) f_nor3 3) = [[0, 0, 0]]"
    by (simp add: DNF_iter_nor3)
qed

text \<open>
  C2, amended: over the Boolean structure every one of the \<open>2 ^ n\<close> rows is a minterm
  of the DNF when the formula is true on it and, complemented, a maxterm of the CNF when
  it is false, never both; the two counts add up to \<open>2 ^ n\<close>; and the maxterms of the
  negated formula, complemented back, are the minterms of the formula.
\<close>

theorem minterms_and_maxterms_share_rows:
  "\<exists>M N. CNF_iter (OfStructure B) f n = Inr M
     \<and> CNF_iter (OfStructure B) (\<lambda>t. \<not> f t) n = Inr N
     \<and> length (operands (OfStructure B) n) = 2 ^ n
     \<and> distinct (operands (OfStructure B) n)
     \<and> (\<forall>t \<in> set (operands (OfStructure B) n).
          \<exists>c. map_E Element_neg t = Inr c
             \<and> (t \<in> set (DNF_iter (OfStructure B) f n) \<longleftrightarrow> f t)
             \<and> (c \<in> set M \<longleftrightarrow> \<not> f t))
     \<and> set (DNF_iter (OfStructure B) f n) \<subseteq> set (operands (OfStructure B) n)
     \<and> distinct (DNF_iter (OfStructure B) f n) \<and> distinct M
     \<and> length (DNF_iter (OfStructure B) f n) + length M = 2 ^ n
     \<and> map_E (map_E Element_neg) N = Inr (DNF_iter (OfStructure B) f n)"
proof -
  let ?ops = "operands (OfStructure B) n"
  let ?neg = "map (\<lambda>x. Element (OfStructure B) (NOT (value_of x)))"
  let ?M = "map ?neg (CNF_rows (OfStructure B) f n)"
  let ?N = "map ?neg (CNF_rows (OfStructure B) (\<lambda>t. \<not> f t) n)"
  have len: "length ?ops = 2 ^ n" by (simp add: operands_B length_product_repeat numeral_2_eq_2)
  have dist: "distinct ?ops" by (simp add: operands_B distinct_product_repeat)
  have rows: "\<forall>t \<in> set ?ops. \<exists>c. map_E Element_neg t = Inr c
      \<and> (t \<in> set (DNF_iter (OfStructure B) f n) \<longleftrightarrow> f t) \<and> (c \<in> set ?M \<longleftrightarrow> \<not> f t)"
  proof
    fix t assume t: "t \<in> set ?ops"
    have "?neg t \<in> set ?M \<longleftrightarrow> \<not> f t"
    proof
      assume "?neg t \<in> set ?M"
      then obtain t' where t': "t' \<in> set ?ops" "\<not> f t'" "?neg t' = ?neg t"
        by (auto simp: CNF_rows_def)
      then have "t' = t" using neg_row_inj_B [of n] t by (auto dest: inj_onD)
      then show "\<not> f t" using t' by simp
    next
      assume "\<not> f t"
      then show "?neg t \<in> set ?M" using t by (auto simp: CNF_rows_def)
    qed
    then show "\<exists>c. map_E Element_neg t = Inr c
      \<and> (t \<in> set (DNF_iter (OfStructure B) f n) \<longleftrightarrow> f t) \<and> (c \<in> set ?M \<longleftrightarrow> \<not> f t)"
      using t by (simp add: map_E_neg_B DNF_iter_def)
  qed
  have distM: "distinct ?M"
    unfolding distinct_map
    using dist neg_row_inj_B [of n]
    by (auto simp: CNF_rows_def intro: inj_on_subset)
  have count: "length (DNF_iter (OfStructure B) f n) + length ?M = 2 ^ n"
    using sum_length_filter_compl [of f ?ops] len by (simp add: DNF_iter_def CNF_rows_def)
  have restore: "map_E (map_E Element_neg) ?N = Inr (DNF_iter (OfStructure B) f n)"
  proof -
    have "set ?N \<subseteq> set ?ops" using neg_row_B(1) by (auto simp: CNF_rows_def)
    then have "map_E (map_E Element_neg) ?N = Inr (map ?neg ?N)" by (rule map_E_neg_rows_B)
    moreover have "map ?neg ?N = DNF_iter (OfStructure B) f n"
    proof -
      have "map ?neg (map ?neg L) = L" if "set L \<subseteq> set ?ops" for L
        using that by (induction L) (simp_all del: map_map add: neg_row_B(2) [where n = n])
      then show ?thesis by (simp del: map_map add: CNF_rows_def DNF_iter_def)
    qed
    ultimately show ?thesis by simp
  qed
  show ?thesis
    using len dist rows distM count restore
    by (intro exI [of _ ?M] exI [of _ ?N]) (simp add: CNF_iter_B DNF_iter_def)
qed

theorem minterms_and_maxterms_share_rows_witness:
  "DNF_iter (OfStructure B) f_nor3 3 =
     [[Element (OfStructure B) 0, Element (OfStructure B) 0, Element (OfStructure B) 0]]
   \<and> (\<exists>M. CNF_iter (OfStructure B) f_nor3 3 = Inr M \<and> length M = 7 \<and> distinct M)"
proof -
  from minterms_and_maxterms_share_rows [of f_nor3 3]
  obtain M where "CNF_iter (OfStructure B) f_nor3 3 = Inr M" "distinct M"
    "length (DNF_iter (OfStructure B) f_nor3 3) + length M = 2 ^ 3"
    by blast
  then show ?thesis by (auto simp: DNF_iter_nor3)
qed

subsection \<open>Axiom predicates on structures without identities\<close>

lemma Element_add_Structure:
  "Element_add (Element (OfStructure S) a) y =
     Inr (Element (OfStructure S) (add_S S a (value_of y)))"
  by (simp add: Element_add_def Element_init_def)

lemma Element_mul_Structure:
  "Element_mul (Element (OfStructure S) a) y =
     Inr (Element (OfStructure S) (mul_S S a (value_of y)))"
  by (simp add: Element_mul_def Element_init_def)

lemma Element_neg_Structure:
  "Element_neg (Element (OfStructure S) a) = Inr (Element (OfStructure S) (inv_S S a))"
  by (simp add: Element_neg_def Element_init_def)

lemma elements_Structure:
  "elements (OfStructure S) = map (Element (OfStructure S)) (remdups (set_S S))"
  by (simp add: elements_eq keys_def)

lemmas eval_Structure =
  elements_Structure Element_add_Structure Element_mul_Structure Element_neg_Structure
  find_additive_identity_def find_multiplicative_identity_def identity_add_def
  identity_mul_def getitem_def eq_E_def Element_eq_def addE_def mulE_def negE_def
  eq_item_def ne_item_def py_ne_def operands_def

lemma no_mul_identity_fields:
  "set_S no_mul_identity = [0, 1]" "add_S no_mul_identity = OR"
  "mul_S no_mul_identity = (\<lambda>a b. 0)" "inv_S no_mul_identity = NOT"
  by (simp_all add: no_mul_identity_def)

lemma no_identities_fields:
  "set_S no_identities = [0, 1]" "add_S no_identities = (\<lambda>a b. 0)"
  "mul_S no_identities = (\<lambda>a b. 0)" "inv_S no_identities = NOT"
  by (simp_all add: no_identities_def)

lemma getitem_no_mul_identity:
  "getitem (OfStructure no_mul_identity) 0 = Inr (Elem (Element (OfStructure no_mul_identity) 0))"
  "getitem (OfStructure no_mul_identity) 1 = Inr NaN"
  by (simp_all add: eval_Structure no_mul_identity_fields OR_def)

lemma getitem_no_identities:
  "getitem (OfStructure no_identities) 0 = Inr NaN"
  "getitem (OfStructure no_identities) 1 = Inr NaN"
  by (simp_all add: eval_Structure no_identities_fields)

lemma is_commutative_no_identities: "is_commutative (OfStructure no_identities) = Inr True"
  by (simp add: is_commutative_def eval_Structure no_identities_fields eval_nat_numeral)

lemma is_distributive_no_identities: "is_distributive (OfStructure no_identities) = Inr True"
  by (simp add: is_distributive_def eval_Structure no_identities_fields eval_nat_numeral)

lemma has_identities_no_identities: "has_identities (OfStructure no_identities) = Inr True"
  by (simp add: has_identities_def getitem_no_identities)

lemma is_complementary_no_identities:
  "is_complementary (OfStructure no_identities) = Inl AttributeError"
  by (simp add: is_complementary_def eq_item_def addE_def getitem_no_identities(2)
      elements_Structure Element_add_Structure Element_neg_Structure no_identities_fields)

lemma no_zero_dividers_no_identities:
  "no_zero_dividers (OfStructure no_identities) = Inl AttributeError"
  by (simp add: no_zero_dividers_def ne_item_def py_ne_def getitem_no_identities(1)
      operands_def elements_Structure eval_nat_numeral no_identities_fields)

text \<open>
  C4: on a structure with closed operations and no identities, \<open>is_complementary\<close>,
  \<open>is_boolean_algebraic\<close> and \<open>no_zero_dividers\<close> raise AttributeError instead of
  returning False.
\<close>

theorem predicates_raise_without_identities:
  "list_all (\<lambda>x. list_all (\<lambda>y.
       add_S no_identities x y \<in> set (set_S no_identities)
     \<and> mul_S no_identities x y \<in> set (set_S no_identities)
     \<and> inv_S no_identities x \<in> set (set_S no_identities))
     (set_S no_identities)) (set_S no_identities)
   \<and> getitem (OfStructure no_identities) 0 = Inr NaN
   \<and> getitem (OfStructure no_identities) 1 = Inr NaN
   \<and> is_complementary (OfStructure no_identities) = Inl AttributeError
   \<and> is_boolean_algebraic (OfStructure no_identities) = Inl AttributeError
   \<and> no_zero_dividers (OfStructure no_identities) = Inl AttributeError"
  by (simp add: is_boolean_algebraic_def is_commutative_no_identities
      is_distributive_no_identities has_identities_no_identities
      is_complementary_no_identities no_zero_dividers_no_identities getitem_no_identities)
    (simp add: no_identities_fields NOT_def)

subsection \<open>Divisor lattices\<close>

lemma isqrt_bounds: "isqrt n * isqrt n \<le> n \<and> n < (isqrt n + 1) * (isqrt n + 1)"
proof (induction n)
  case 0
  then show ?case by simp
next
  case (Suc n)
  then show ?case by (auto simp: Let_def)
qed

lemma isqrt_int:
  assumes "0 \<le> n"
  shows "int (isqrt (nat n)) * int (isqrt (nat n)) \<le> n"
    and "n < (int (isqrt (nat n)) + 1) * (int (isqrt (nat n)) + 1)"
proof -
  let ?r = "isqrt (nat n)"
  have "int (?r * ?r) \<le> int (nat n)" using isqrt_bounds [of "nat n"] by (simp only: of_nat_le_iff)
  then show "int ?r * int ?r \<le> n" using assms by simp
  have "int (nat n) < int ((?r + 1) * (?r + 1))"
    using isqrt_bounds [of "nat n"] by (simp only: of_nat_less_iff)
  then show "n < (int ?r + 1) * (int ?r + 1)" using assms by (simp add: algebra_simps)
qed

lemma set_divisors:
  assumes "0 < n"
  shows "set (divisors n) = {d. 0 < d \<and> d dvd n}"
proof (rule set_eqI)
  fix d
  let ?r = "int (isqrt (nat n))"
  have in_div: "d \<in> set (divisors n) \<longleftrightarrow>
      (\<exists>k. 1 \<le> k \<and> k \<le> ?r \<and> n mod k = 0 \<and> (d = k \<or> d = n div k))"
  proof -
    have "d \<in> set (divisors n) \<longleftrightarrow>
        (\<exists>k \<in> set (filter (\<lambda>k. n mod k = 0) [1..?r]). d \<in> set [k, n div k])"
      unfolding divisors_def set_remdups set_concat set_map by blast
    then show ?thesis by auto
  qed
  show "d \<in> set (divisors n) \<longleftrightarrow> d \<in> {d. 0 < d \<and> d dvd n}"
  proof
    assume "d \<in> set (divisors n)"
    then have "\<exists>k. 1 \<le> k \<and> k \<le> ?r \<and> n mod k = 0 \<and> (d = k \<or> d = n div k)"
      by (rule iffD1 [OF in_div])
    then obtain k where k: "1 \<le> k" "n mod k = 0" "d = k \<or> d = n div k"
      by (elim exE conjE)
    then have kn: "k dvd n" by (simp add: dvd_eq_mod_eq_0)
    then have "k \<le> n" using assms by (simp add: zdvd_imp_le)
    then have "0 < n div k" using k(1) by (simp add: pos_imp_zdiv_pos_iff)
    moreover have "n div k dvd n" using kn by (metis dvd_div_mult_self dvd_triv_left)
    ultimately show "d \<in> {d. 0 < d \<and> d dvd n}" using k kn by auto
  next
    assume "d \<in> {d. 0 < d \<and> d dvd n}"
    then have d: "0 < d" "d dvd n" by simp_all
    define e where "e = n div d"
    have de: "e * d = n" using d(2) by (simp add: e_def)
    have e_pos: "0 < e" using de assms d(1) by (metis zero_less_mult_pos2)
    have e_dvd: "e dvd n" using de by (metis dvd_triv_left)
    show "d \<in> set (divisors n)"
    proof (cases "d \<le> ?r")
      case True
      then have "1 \<le> d \<and> d \<le> ?r \<and> n mod d = 0 \<and> (d = d \<or> d = n div d)"
        using d by (simp add: dvd_eq_mod_eq_0)
      then have "\<exists>k. 1 \<le> k \<and> k \<le> ?r \<and> n mod k = 0 \<and> (d = k \<or> d = n div k)"
        by (rule exI)
      then show ?thesis by (rule iffD2 [OF in_div])
    next
      case False
      have "e \<le> ?r"
      proof (rule ccontr)
        assume "\<not> e \<le> ?r"
        then have "?r + 1 \<le> e" "?r + 1 \<le> d" using False by simp_all
        then have "(?r + 1) * (?r + 1) \<le> e * d" by (intro mult_mono) simp_all
        then show False using isqrt_int(2) [of n] assms de by simp
      qed
      moreover have "n div e = d"
      proof -
        have "e * d div e = d" using e_pos by simp
        then show ?thesis by (simp only: de)
      qed
      ultimately have "1 \<le> e \<and> e \<le> ?r \<and> n mod e = 0 \<and> (d = e \<or> d = n div e)"
        using e_pos e_dvd by (simp add: dvd_eq_mod_eq_0)
      then have "\<exists>k. 1 \<le> k \<and> k \<le> ?r \<and> n mod k = 0 \<and> (d = k \<or> d = n div k)"
        by (rule exI)
      then show ?thesis by (rule iffD2 [OF in_div])
    qed
  qed
qed

lemma D_6: "D 6 = Inr D6"
proof -
  have "divisors 6 = [1, 6, 2, 3]" by code_simp
  moreover have "str_nat (nat 6) = ''6''" by code_simp
  ultimately show ?thesis by (simp add: D_def D6_def)
qed

lemma D6_fields:
  "set_S D6 = [1, 6, 2, 3]" "add_S D6 = lcm" "mul_S D6 = gcd"
  "inv_S D6 = (\<lambda>divisor. 6 div divisor)"
  by (simp_all add: D6_def)

lemma identities_D6:
  "identity_add (OfStructure D6) = Inr (Element (OfStructure D6) 1)"
  "identity_mul (OfStructure D6) = Inr (Element (OfStructure D6) 6)"
  by (simp_all add: eval_Structure D6_fields)

lemma is_boolean_algebraic_D6: "is_boolean_algebraic (OfStructure D6) = Inr True"
  by code_simp

text \<open>
  C8: for positive \<open>n\<close>, \<open>D(n)\<close> is the structure on the positive divisors of \<open>n\<close>
  with \<open>lcm\<close>, \<open>gcd\<close> and \<open>x \<mapsto> n // x\<close>; \<open>D(6)\<close> has carrier \<open>{1, 2, 3, 6}\<close>,
  additive identity 1, multiplicative identity 6, and is boolean-algebraic.
\<close>

theorem D_is_divisor_lattice:
  "(0 < n \<longrightarrow>
      (\<exists>S. D n = Inr S \<and> set (set_S S) = {d. 0 < d \<and> d dvd n} \<and> distinct (set_S S)
          \<and> add_S S = lcm \<and> mul_S S = gcd \<and> inv_S S = (\<lambda>x. n div x)))
   \<and> (\<exists>S. D 6 = Inr S \<and> set (set_S S) = {1, 2, 3, 6}
          \<and> identity_add (OfStructure S) = Inr (Element (OfStructure S) 1)
          \<and> identity_mul (OfStructure S) = Inr (Element (OfStructure S) 6)
          \<and> is_boolean_algebraic (OfStructure S) = Inr True)"
proof (intro conjI impI)
  assume pos: "0 < n"
  let ?S = "\<lparr>name_S = ''D'' @ str_nat (nat n), set_S = divisors n,
             add_S = lcm, mul_S = gcd, inv_S = (\<lambda>divisor. n div divisor)\<rparr>"
  have "D n = Inr ?S" using pos by (simp add: D_def)
  moreover have "set (set_S ?S) = {d. 0 < d \<and> d dvd n}" using set_divisors [OF pos] by simp
  moreover have "distinct (set_S ?S)" unfolding divisors_def by simp
  moreover have "add_S ?S = lcm" "mul_S ?S = gcd" "inv_S ?S = (\<lambda>x. n div x)" by simp_all
  ultimately show "\<exists>S. D n = Inr S \<and> set (set_S S) = {d. 0 < d \<and> d dvd n} \<and> distinct (set_S S)
          \<and> add_S S = lcm \<and> mul_S S = gcd \<and> inv_S S = (\<lambda>x. n div x)"
    by (intro exI [of _ ?S] conjI)
next
  show "\<exists>S. D 6 = Inr S \<and> set (set_S S) = {1, 2, 3, 6}
          \<and> identity_add (OfStructure S) = Inr (Element (OfStructure S) 1)
          \<and> identity_mul (OfStructure S) = Inr (Element (OfStructure S) 6)
          \<and> is_boolean_algebraic (OfStructure S) = Inr True"
  proof (intro exI [of _ D6] conjI)
    show "set (set_S D6) = {1, 2, 3, 6}" by (auto simp: D6_fields)
  qed (simp_all add: D_6 identities_D6 is_boolean_algebraic_D6)
qed

theorem D_is_divisor_lattice_witness:
  "(0::int) < 8
   \<and> (\<exists>S. D 8 = Inr S \<and> set (set_S S) = {1, 2, 4, 8} \<and> add_S S = lcm \<and> mul_S S = gcd
          \<and> inv_S S 2 = 4)"
proof -
  have pos: "(0::int) < 8" by simp
  have "{d::int. 0 < d \<and> d dvd 8} = {1, 2, 4, 8}"
  proof -
    have "d \<in> {1, 2, 4, 8}" if "0 < d" "d dvd 8" for d :: int
    proof -
      have "d \<le> 8" using that by (simp add: zdvd_imp_le)
      then have "d \<in> {1, 2, 3, 4, 5, 6, 7, 8}" using that(1) by auto
      then show ?thesis using that(2) by auto
    qed
    then show ?thesis by auto
  qed
  moreover from mp [OF conjunct1 [OF D_is_divisor_lattice [of 8]] pos]
  obtain S where "D 8 = Inr S" "set (set_S S) = {d. 0 < d \<and> d dvd 8}"
    "add_S S = lcm" "mul_S S = gcd" "inv_S S = (\<lambda>x. 8 div x)"
    by (elim exE conjE)
  ultimately have "D 8 = Inr S \<and> set (set_S S) = {1, 2, 4, 8} \<and> add_S S = lcm \<and> mul_S S = gcd
          \<and> inv_S S 2 = 4"
    by simp
  then show ?thesis using pos by (intro conjI exI [of _ S]) simp_all
qed

subsection \<open>Closure\<close>

lemma member_elements_iff: "member_elements s el \<longleftrightarrow> value_of el \<in> set (keys s)"
  by (auto simp: member_elements_def elements_eq list_ex_iff Element_hash_def Element_eq_def)

lemma closure_Structure:
  assumes "\<And>x y. x \<in> set (set_S S) \<Longrightarrow> y \<in> set (set_S S) \<Longrightarrow>
             add_S S x y \<in> set (set_S S) \<and> mul_S S x y \<in> set (set_S S)
             \<and> inv_S S x \<in> set (set_S S)"
  shows "closure (OfStructure S)"
  using assms
  by (auto simp: closure_def list_all_iff elements_Structure closed_result_def
      member_elements_iff keys_def Element_add_Structure Element_mul_Structure
      Element_neg_Structure)

lemma closure_B: "closure (OfStructure B)"
  by (rule closure_Structure) (auto simp: B_def OR_def AND_def NOT_def)

lemma divisors_0: "divisors 0 = []"
  by (simp add: divisors_def)

lemma closure_D:
  assumes "D n = Inr S"
  shows "closure (OfStructure S)"
proof -
  from assms have n: "0 \<le> n" and S: "set_S S = divisors n" "add_S S = lcm" "mul_S S = gcd"
    "inv_S S = (\<lambda>divisor. n div divisor)"
    by (auto simp: D_def split: if_splits)
  show ?thesis
  proof (cases "n = 0")
    case True
    then show ?thesis by (intro closure_Structure) (simp add: S divisors_0)
  next
    case False
    then have pos: "0 < n" using n by simp
    show ?thesis
    proof (rule closure_Structure)
      fix x y assume "x \<in> set (set_S S)" "y \<in> set (set_S S)"
      then have x: "0 < x" "x dvd n" and y: "0 < y" "y dvd n"
        by (simp_all add: S set_divisors [OF pos])
      have "0 < lcm x y" using x(1) y(1) by (simp add: lcm_pos_int)
      moreover have "lcm x y dvd n" using x(2) y(2) by simp
      moreover have "0 < gcd x y" using x(1) by simp
      moreover have "gcd x y dvd n" using x(2) by (rule dvd_trans [OF gcd_dvd1])
      moreover have "0 < n div x"
        using x pos by (simp add: pos_imp_zdiv_pos_iff zdvd_imp_le)
      moreover have "n div x dvd n" using x(2) by (metis dvd_div_mult_self dvd_triv_left)
      ultimately show "add_S S x y \<in> set (set_S S) \<and> mul_S S x y \<in> set (set_S S)
             \<and> inv_S S x \<in> set (set_S S)"
        by (simp add: S set_divisors [OF pos])
    qed
  qed
qed

lemma elements_Field:
  "elements (OfField F) = map (Element (OfField F)) [0..ord_F F - 1]"
  by (simp add: elements_eq keys_def)

lemma Element_add_Field:
  "ord_F F \<noteq> 0 \<Longrightarrow> Element_add (Element (OfField F) a) y =
     Inr (Element (OfField F) (add_F F a (value_of y) mod ord_F F))"
  by (simp add: Element_add_def Element_init_def)

lemma Element_mul_Field:
  "ord_F F \<noteq> 0 \<Longrightarrow> Element_mul (Element (OfField F) a) y =
     Inr (Element (OfField F) (mul_F F a (value_of y) mod ord_F F))"
  by (simp add: Element_mul_def Element_init_def)

lemma next_E_Some_mem: "next_E p xs = Inr (Some x) \<Longrightarrow> x \<in> set xs"
  by (induction xs) (auto split: sum.splits if_splits)

lemma next_E_returns:
  assumes "\<And>x. x \<in> set xs \<Longrightarrow> \<exists>b. p x = Inr b"
  shows "\<exists>r. next_E p xs = Inr r"
  using assms
proof (induction xs)
  case Nil
  then show ?case by simp
next
  case (Cons x xs)
  from Cons.prems [of x] obtain b where "p x = Inr b" by auto
  moreover have "\<exists>r. next_E p xs = Inr r" using Cons.prems by (intro Cons.IH) simp
  ultimately show ?case by auto
qed

lemma all_E_True: "(\<And>y. y \<in> set ys \<Longrightarrow> q y = Inr True) \<Longrightarrow> all_E q ys = Inr True"
  by (induction ys) auto

lemma getitem_0_mem:
  assumes "getitem s 0 = Inr (Elem z)"
  shows "z \<in> set (elements s)"
proof -
  from assms have "find_additive_identity (elements s) = Inr (Some z)"
    by (auto simp: getitem_def bindE_def split: sum.splits option.splits)
  then show ?thesis unfolding find_additive_identity_def by (rule next_E_Some_mem)
qed

lemma add_inv_closed:
  assumes ord: "0 < ord_F F" and zero: "getitem (OfField F) 0 = Inr (Elem z)"
    and x: "x \<in> set (elements (OfField F))"
  shows "\<exists>r \<in> set (elements (OfField F)). add_inv F x = Inr r"
proof (cases "Element_eq x z")
  case True
  then show ?thesis using x by (simp add: add_inv_def zero)
next
  case False
  let ?p = "\<lambda>el. bindE (Element_add x el) (\<lambda>r.
              bindE (getitem (OfField F) 0) (\<lambda>z'. py_eq (Elem r) z'))"
  have "\<exists>b. ?p el = Inr b" for el
    using x ord by (auto simp: elements_Field Element_add_Field zero)
  then obtain r where r: "next_E ?p (elements (OfField F)) = Inr r"
    using next_E_returns [of "elements (OfField F)" ?p] by blast
  show ?thesis
  proof (cases r)
    case None
    then show ?thesis using r False getitem_0_mem [OF zero] by (simp add: add_inv_def zero)
  next
    case (Some el)
    then have "el \<in> set (elements (OfField F))" using r next_E_Some_mem by fastforce
    then show ?thesis using r False Some by (simp add: add_inv_def zero)
  qed
qed

lemma closure_Field:
  assumes ord: "0 < ord_F F" and zero: "getitem (OfField F) 0 = Inr (Elem z)"
  shows "closure (OfField F)"
  unfolding closure_def list_all_iff
proof (intro ballI conjI)
  fix x assume x: "x \<in> set (elements (OfField F))"
  from add_inv_closed [OF ord zero x]
  show "closed_result (OfField F) (Element_neg x)"
    using x by (auto simp: closed_result_def Element_neg_def elements_Field
        member_elements_iff keys_def)
  fix y assume "y \<in> set (elements (OfField F))"
  show "closed_result (OfField F) (Element_add x y)"
    using x ord by (auto simp: closed_result_def elements_Field Element_add_Field
        member_elements_iff keys_def)
  show "closed_result (OfField F) (Element_mul x y)"
    using x ord by (auto simp: closed_result_def elements_Field Element_mul_Field
        member_elements_iff keys_def)
qed

lemma GF_fields: "ord_F (GF nm p) = p" "add_F (GF nm p) = (+)" "mul_F (GF nm p) = (*)"
  by (simp_all add: GF_def)

lemma getitem_GF_0:
  assumes "0 < p"
  shows "getitem (OfField (GF nm p)) 0 = Inr (Elem (Element (OfField (GF nm p)) 0))"
proof -
  let ?F = "OfField (GF nm p)"
  have els: "elements ?F = Element ?F 0 # map (Element ?F) [1..p - 1]"
    using assms by (simp add: elements_Field GF_fields upto_rec1)
  have "all_E (\<lambda>y. eq_E (Element_add (Element ?F 0) y) (Inr y)) (elements ?F) = Inr True"
  proof (rule all_E_True)
    fix y assume "y \<in> set (elements ?F)"
    then obtain b where "y = Element ?F b" "0 \<le> b" "b < p"
      by (auto simp: elements_Field GF_fields)
    then show "eq_E (Element_add (Element ?F 0) y) (Inr y) = Inr True"
      using assms by (simp add: Element_add_Field GF_fields eq_E_def Element_eq_def)
  qed
  then have "find_additive_identity (elements ?F) = Inr (Some (Element ?F 0))"
    unfolding find_additive_identity_def by (subst (2) els) simp
  then show ?thesis by (simp add: getitem_def)
qed

lemma closure_GF: "0 < p \<Longrightarrow> closure (OfField (GF nm p))"
  by (rule closure_Field [OF _ getitem_GF_0]) (simp_all add: GF_fields)

text \<open>
  C9: the Boolean structure, every divisor lattice \<open>D(n)\<close> and the eight predefined
  Galois fields are closed: for all their elements \<open>x\<close>, \<open>y\<close> the results of \<open>x + y\<close>,
  \<open>x * y\<close> and \<open>-x\<close> are returned and are members of the element set.
\<close>

theorem predefined_structures_closed:
  "closure (OfStructure B)
   \<and> (case D n of Inr S \<Rightarrow> closure (OfStructure S) | Inl e \<Rightarrow> n < 0)
   \<and> list_all (\<lambda>F. closure (OfField F)) [GF2, GF3, GF5, GF7, GF11, GF13, GF17, GF19]"
proof (intro conjI)
  show "closure (OfStructure B)" by (rule closure_B)
  show "case D n of Inr S \<Rightarrow> closure (OfStructure S) | Inl e \<Rightarrow> n < 0"
    by (cases "D n") (auto simp: closure_D D_def split: if_splits)
  show "list_all (\<lambda>F. closure (OfField F)) [GF2, GF3, GF5, GF7, GF11, GF13, GF17, GF19]"
    by (simp add: closure_GF GF2_def GF3_def GF5_def GF7_def GF11_def GF13_def GF17_def
        GF19_def)
qed

lemma GF7_fields: "ord_F GF7 = 7" "add_F GF7 = (+)" "mul_F GF7 = (*)"
  by (simp_all add: GF7_def GF_def)

lemma elements_GF7:
  "elements (OfField GF7) = map (Element (OfField GF7)) [0, 1, 2, 3, 4, 5, 6]"
  by (simp add: elements_Field GF7_fields upto.simps)

lemma getitem_GF7_0: "getitem (OfField GF7) 0 = Inr (Elem (Element (OfField GF7) 0))"
  unfolding GF7_def by (rule getitem_GF_0) simp

lemma Element_add_GF7:
  "Element_add (Element (OfField GF7) a) y = Inr (Element (OfField GF7) ((a + value_of y) mod 7))"
  by (simp add: Element_add_Field GF7_fields)

lemma Element_mul_GF7:
  "Element_mul (Element (OfField GF7) a) y = Inr (Element (OfField GF7) ((a * value_of y) mod 7))"
  by (simp add: Element_mul_Field GF7_fields)

lemma Element_neg_GF7_3: "Element_neg (Element (OfField GF7) 3) = Inr (Element (OfField GF7) 4)"
  by (simp add: Element_neg_def add_inv_def getitem_GF7_0 elements_GF7 Element_add_GF7
      Element_eq_def)

theorem predefined_structures_closed_witness:
  "closure (OfStructure D6)
   \<and> Element_add (Element (OfStructure D6) 2) (Element (OfStructure D6) 3)
       = Inr (Element (OfStructure D6) 6)
   \<and> member_elements (OfStructure D6) (Element (OfStructure D6) 6)
   \<and> closure (OfField GF7)
   \<and> Element_neg (Element (OfField GF7) 3) = Inr (Element (OfField GF7) 4)"
proof -
  have "closure (OfStructure D6)" "closure (OfField GF7)"
    using predefined_structures_closed [of 6] by (simp_all add: D_6)
  moreover have "Element_add (Element (OfStructure D6) 2) (Element (OfStructure D6) 3)
       = Inr (Element (OfStructure D6) 6)"
    by (simp add: Element_add_Structure D6_fields lcm_int_def lcm_nat_def)
  moreover have "member_elements (OfStructure D6) (Element (OfStructure D6) 6)"
    by (simp add: member_elements_iff keys_def D6_fields)
  moreover note Element_neg_GF7_3
  ultimately show ?thesis by simp
qed

subsection \<open>Exponentiation in a field\<close>

lemma pow_negative:
  "exp < 0 \<Longrightarrow> pow F base exp = bindE (pow F base (- exp)) (mul_inv F)"
  by (simp add: pow_def)

lemma pow_zero:
  assumes "2 \<le> ord_F F" and "getitem (OfField F) 1 = Inr (Elem u)"
  shows "pow F base 0 = Inr (Elem u)"
  using assms by (simp add: pow_def pow_nonneg_def)

lemma pow_identity_base:
  assumes "2 \<le> ord_F F" and "getitem (OfField F) 0 = Inr (Elem z)"
    and "getitem (OfField F) 1 = Inr (Elem u)" and "0 < exp"
    and "Element_eq base z \<or> Element_eq base u"
  shows "pow F base exp = Inr (Elem base)"
  using assms
  by (auto simp: pow_def pow_nonneg_def in_pair_def Element_eq_def Element_hash_def)

lemma getitem_order_1:
  assumes "ord_F F = 1"
  shows "getitem (OfField F) 0 = Inr (Elem (Element (OfField F) 0))"
  using assms
  by (simp add: getitem_def find_additive_identity_def elements_Field Element_add_Field
      eq_E_def Element_eq_def)

lemma getitem_order_0:
  assumes "ord_F F = 0"
  shows "getitem (OfField F) i = (if i = 0 \<or> i = 1 then Inr NaN else Inl ValueError)"
  using assms
  by (simp add: getitem_def find_additive_identity_def find_multiplicative_identity_def
      elements_Field)

lemma pow_degenerate_nonneg:
  assumes "ord_F F = 0 \<or> ord_F F = 1" and "0 \<le> exp"
  shows "pow F base exp = getitem (OfField F) 0"
  using assms by (auto simp: pow_def pow_nonneg_def)

lemma pow_degenerate_negative:
  assumes "ord_F F = 0 \<or> ord_F F = 1" and "exp < 0"
  shows "pow F base exp = Inr NaN"
proof -
  have "pow F base exp = bindE (getitem (OfField F) 0) (mul_inv F)"
    using assms by (auto simp: pow_def pow_nonneg_def)
  moreover have "bindE (getitem (OfField F) 0) (mul_inv F) = Inr NaN"
  proof (cases "ord_F F = 1")
    case True
    then show ?thesis by (simp add: getitem_order_1 mul_inv_def Element_eq_def)
  next
    case False
    then have "ord_F F = 0" using assms(1) by simp
    then show ?thesis by (simp add: getitem_order_0 mul_inv_def elements_Field)
  qed
  ultimately show ?thesis by simp
qed

lemma getitem_GF_1:
  assumes "2 \<le> p"
  shows "getitem (OfField (GF nm p)) 1 = Inr (Elem (Element (OfField (GF nm p)) 1))"
proof -
  let ?F = "OfField (GF nm p)"
  have els: "elements ?F = Element ?F 0 # Element ?F 1 # map (Element ?F) [2..p - 1]"
    using assms by (simp add: elements_Field GF_fields upto_rec1)
  have no: "all_E (\<lambda>y. eq_E (Element_mul (Element ?F 0) y) (Inr y)) (elements ?F) = Inr False"
    using assms by (subst els) (simp add: Element_mul_Field GF_fields eq_E_def Element_eq_def)
  have yes: "all_E (\<lambda>y. eq_E (Element_mul (Element ?F 1) y) (Inr y)) (elements ?F) = Inr True"
  proof (rule all_E_True)
    fix y assume "y \<in> set (elements ?F)"
    then obtain b where "y = Element ?F b" "0 \<le> b" "b < p"
      by (auto simp: elements_Field GF_fields)
    then show "eq_E (Element_mul (Element ?F 1) y) (Inr y) = Inr True"
      using assms by (simp add: Element_mul_Field GF_fields eq_E_def Element_eq_def)
  qed
  have "find_multiplicative_identity (elements ?F) = Inr (Some (Element ?F 1))"
    unfolding find_multiplicative_identity_def by (subst (2) els) (simp add: no yes)
  then show ?thesis by (simp add: getitem_def)
qed

lemma square_power_mod: "(b * b mod p) ^ m mod p = b ^ (2 * m) mod (p::int)"
proof -
  have "(b * b mod p) ^ m mod p = (b * b) ^ m mod p" by (rule power_mod)
  also have "(b * b) ^ m = b ^ (2 * m)" by (simp add: power_mult power2_eq_square)
  finally show ?thesis .
qed

lemma pow_loop_GF:
  assumes "0 < p"
  shows "pow_loop (Elem (Element (OfField (GF nm p)) r)) (Element (OfField (GF nm p)) b) k =
           Inr (Elem (Element (OfField (GF nm p)) (if k = 0 then r else r * b ^ k mod p)))"
proof (induction k arbitrary: r b rule: less_induct)
  case (less k)
  let ?F = "OfField (GF nm p)"
  show ?case
  proof (cases "k = 0")
    case True
    then show ?thesis by (simp add: pow_loop.simps)
  next
    case False
    define m where "m = k div 2"
    have m: "m < k" using False by (simp add: m_def)
    have sq: "Element_mul (Element ?F b) (Element ?F b) = Inr (Element ?F (b * b mod p))"
      using assms by (simp add: Element_mul_Field GF_fields)
    show ?thesis
    proof (cases "odd k")
      case True
      then have k: "k = 2 * m + 1" by (simp add: m_def)
      have "pow_loop (Elem (Element ?F r)) (Element ?F b) k =
              pow_loop (Elem (Element ?F (r * b mod p))) (Element ?F (b * b mod p)) m"
        using assms False True
        by (subst pow_loop.simps) (simp add: sq Element_mul_Field GF_fields m_def)
      also have "\<dots> = Inr (Elem (Element ?F
          (if m = 0 then r * b mod p else (r * b mod p) * (b * b mod p) ^ m mod p)))"
        by (rule less.IH [OF m])
      also have "(if m = 0 then r * b mod p else (r * b mod p) * (b * b mod p) ^ m mod p) =
          r * b ^ k mod p"
      proof -
        have "(r * b mod p) * (b * b mod p) ^ m mod p = (r * b) * (b * b) ^ m mod p"
          by (rule mod_mult_cong) (simp_all add: power_mod)
        also have "(b * b) ^ m = b ^ (2 * m)" by (simp add: power_mult power2_eq_square)
        also have "r * b * b ^ (2 * m) = r * b ^ k" by (simp add: k)
        finally show ?thesis by (simp add: k)
      qed
      finally show ?thesis using False by simp
    next
      case False
      then have k: "k = 2 * m" by (simp add: m_def)
      have m0: "m \<noteq> 0" using k \<open>k \<noteq> 0\<close> by simp
      have "pow_loop (Elem (Element ?F r)) (Element ?F b) k =
              pow_loop (Elem (Element ?F r)) (Element ?F (b * b mod p)) m"
        using \<open>k \<noteq> 0\<close> False by (subst pow_loop.simps) (simp add: sq m_def)
      also have "\<dots> = Inr (Elem (Element ?F
          (if m = 0 then r else r * (b * b mod p) ^ m mod p)))"
        by (rule less.IH [OF m])
      also have "(if m = 0 then r else r * (b * b mod p) ^ m mod p) = r * b ^ k mod p"
      proof -
        have "r * (b * b mod p) ^ m mod p = r * (b * b) ^ m mod p"
          by (rule mod_mult_cong) (simp_all add: power_mod)
        also have "(b * b) ^ m = b ^ k" by (simp add: k power_mult power2_eq_square)
        finally show ?thesis using m0 by simp
      qed
      finally show ?thesis using \<open>k \<noteq> 0\<close> by simp
    qed
  qed
qed

lemma pow_GF:
  assumes "2 \<le> p" and "0 \<le> a" and "a < p" and "0 \<le> exp"
  shows "pow (GF nm p) (Element (OfField (GF nm p)) a) exp =
           Inr (Elem (Element (OfField (GF nm p)) (a ^ nat exp mod p)))"
proof -
  let ?F = "OfField (GF nm p)"
  have p: "0 < p" using assms(1) by simp
  show ?thesis
  proof (cases "exp = 0")
    case True
    then show ?thesis using assms(1) pow_zero [of "GF nm p" "Element ?F 1"]
      by (simp add: getitem_GF_1 GF_fields)
  next
    case False
    then have k: "nat exp \<noteq> 0" "0 < nat exp" using assms(4) by simp_all
    have pair: "in_pair (Element ?F a) (Elem (Element ?F 0)) (Elem (Element ?F 1)) \<longleftrightarrow>
        a = 0 \<or> a = 1"
      by (auto simp: in_pair_def Element_hash_def Element_eq_def)
    have unfolded: "pow (GF nm p) (Element ?F a) exp =
        (if a = 0 \<or> a = 1 then Inr (Elem (Element ?F a))
         else pow_loop (Elem (Element ?F 1)) (Element ?F a) (nat exp))"
      using assms False
      by (simp add: pow_def pow_nonneg_def GF_fields getitem_GF_0 [OF p] getitem_GF_1 pair)
    show ?thesis
    proof (cases "a = 0 \<or> a = 1")
      case True
      then show ?thesis using k assms(1) by (auto simp: unfolded power_0_left)
    next
      case False
      then show ?thesis using k assms by (simp add: unfolded pow_loop_GF [OF p])
    qed
  qed
qed

lemma getitem_GF7_1: "getitem (OfField GF7) 1 = Inr (Elem (Element (OfField GF7) 1))"
  unfolding GF7_def by (rule getitem_GF_1) simp

lemma mul_inv_GF7_3:
  "mul_inv GF7 (Elem (Element (OfField GF7) 3)) = Inr (Elem (Element (OfField GF7) 5))"
  by (simp add: mul_inv_def getitem_GF7_0 getitem_GF7_1 elements_GF7 Element_mul_GF7
      Element_eq_def)

lemma pow_GF7_3: "pow GF7 (Element (OfField GF7) 3) 1 = Inr (Elem (Element (OfField GF7) 3))"
  using pow_GF [of 7 3 1 "''GF7''"] by (simp add: GF7_def)

lemma identity_mul_GF7: "identity_mul (OfField GF7) = Inr (Element (OfField GF7) 1)"
  using getitem_GF7_1
  by (auto simp: getitem_def identity_mul_def bindE_def split: sum.splits option.splits)

lemma order_fields: "ord_F order_one = 1" "ord_F order_zero = 0"
  by (simp_all add: order_one_def order_zero_def GF_fields)

text \<open>
  C5, as stated, fails in the degenerate orders: in the field of order 1 the additive
  identity is the element 0, yet \<open>pow\<close> with exponent -1 returns \<open>nan\<close>; the field of
  order 0 has no additive identity at all and \<open>pow\<close> returns \<open>nan\<close>.
\<close>

theorem pow_degenerate_returns_nan:
  "ord_F order_one = 1
   \<and> getitem (OfField order_one) 0 = Inr (Elem (Element (OfField order_one) 0))
   \<and> pow order_one (Element (OfField order_one) 0) (- 1) = Inr NaN
   \<and> ord_F order_zero = 0
   \<and> find_additive_identity (elements (OfField order_zero)) = Inr None
   \<and> pow order_zero (Element (OfField GF7) 3) 2 = Inr NaN"
  by (simp add: order_fields getitem_order_1 pow_degenerate_negative pow_degenerate_nonneg
      getitem_order_0 find_additive_identity_def elements_Field)

text \<open>
  C5, amended: in a field of order at least 2 with both identities \<open>pow(base, 0)\<close> is
  the multiplicative identity and \<open>pow\<close> of a base equal to either identity with a
  positive exponent is that base; a negative exponent gives
  \<open>mul_inv(pow(base, -exponent))\<close>; with a non-negative exponent the result in order 1
  is the additive identity and in order 0, where there is none, the value \<open>nan\<close> of
  \<open>self[0]\<close>; with a negative exponent the result in orders 0 and 1 is \<open>nan\<close>. In a
  field \<open>Field(name, p, operator.add, operator.mul)\<close> with \<open>p \<ge> 2\<close>, \<open>pow\<close> with a
  non-negative exponent is the power modulo \<open>p\<close>. In GF7, \<open>pow(3, -1)\<close> is
  \<open>mul_inv(3)\<close>, and 3 times it is the multiplicative identity.
\<close>

theorem pow_semantics:
  "(2 \<le> ord_F F \<and> getitem (OfField F) 0 = Inr (Elem z) \<and> getitem (OfField F) 1 = Inr (Elem u)
      \<longrightarrow> pow F base 0 = Inr (Elem u)
        \<and> (0 < exp \<and> (Element_eq base z \<or> Element_eq base u)
             \<longrightarrow> pow F base exp = Inr (Elem base)))
   \<and> (exp < 0 \<longrightarrow> pow F base exp = bindE (pow F base (- exp)) (mul_inv F))
   \<and> (ord_F F = 1 \<and> 0 \<le> exp
      \<longrightarrow> getitem (OfField F) 0 = Inr (Elem (Element (OfField F) 0))
        \<and> pow F base exp = Inr (Elem (Element (OfField F) 0)))
   \<and> (ord_F F = 0 \<and> 0 \<le> exp
      \<longrightarrow> getitem (OfField F) 0 = Inr NaN \<and> pow F base exp = Inr NaN)
   \<and> ((ord_F F = 0 \<or> ord_F F = 1) \<and> exp < 0 \<longrightarrow> pow F base exp = Inr NaN)
   \<and> (2 \<le> p \<and> 0 \<le> a \<and> a < p \<and> 0 \<le> exp
      \<longrightarrow> pow (GF nm p) (Element (OfField (GF nm p)) a) exp =
            Inr (Elem (Element (OfField (GF nm p)) (a ^ nat exp mod p))))
   \<and> pow GF7 (Element (OfField GF7) 3) (- 1) = mul_inv GF7 (Elem (Element (OfField GF7) 3))
   \<and> mul_inv GF7 (Elem (Element (OfField GF7) 3)) = Inr (Elem (Element (OfField GF7) 5))
   \<and> Element_mul (Element (OfField GF7) 3) (Element (OfField GF7) 5) =
       identity_mul (OfField GF7)"
proof (intro conjI impI)
  assume "2 \<le> ord_F F \<and> getitem (OfField F) 0 = Inr (Elem z)
      \<and> getitem (OfField F) 1 = Inr (Elem u)"
  then have F: "2 \<le> ord_F F" "getitem (OfField F) 0 = Inr (Elem z)"
    "getitem (OfField F) 1 = Inr (Elem u)" by simp_all
  show "pow F base 0 = Inr (Elem u)" by (rule pow_zero [OF F(1) F(3)])
  assume "0 < exp \<and> (Element_eq base z \<or> Element_eq base u)"
  then show "pow F base exp = Inr (Elem base)"
    using pow_identity_base [OF F] by simp
next
  assume "exp < 0"
  then show "pow F base exp = bindE (pow F base (- exp)) (mul_inv F)" by (rule pow_negative)
next
  assume one: "ord_F F = 1 \<and> 0 \<le> exp"
  then show "getitem (OfField F) 0 = Inr (Elem (Element (OfField F) 0))"
    by (simp add: getitem_order_1)
  then show "pow F base exp = Inr (Elem (Element (OfField F) 0))"
    using one by (simp add: pow_degenerate_nonneg)
next
  assume zero: "ord_F F = 0 \<and> 0 \<le> exp"
  then show "getitem (OfField F) 0 = Inr NaN" by (simp add: getitem_order_0)
  then show "pow F base exp = Inr NaN" using zero by (simp add: pow_degenerate_nonneg)
next
  assume "(ord_F F = 0 \<or> ord_F F = 1) \<and> exp < 0"
  then show "pow F base exp = Inr NaN" by (simp add: pow_degenerate_negative)
next
  assume "2 \<le> p \<and> 0 \<le> a \<and> a < p \<and> 0 \<le> exp"
  then show "pow (GF nm p) (Element (OfField (GF nm p)) a) exp =
            Inr (Elem (Element (OfField (GF nm p)) (a ^ nat exp mod p)))"
    by (simp add: pow_GF)
next
  show "pow GF7 (Element (OfField GF7) 3) (- 1) = mul_inv GF7 (Elem (Element (OfField GF7) 3))"
    using pow_negative [of "- 1" GF7 "Element (OfField GF7) 3"] by (simp add: pow_GF7_3)
  show "mul_inv GF7 (Elem (Element (OfField GF7) 3)) = Inr (Elem (Element (OfField GF7) 5))"
    by (rule mul_inv_GF7_3)
  show "Element_mul (Element (OfField GF7) 3) (Element (OfField GF7) 5) =
       identity_mul (OfField GF7)"
    by (simp add: Element_mul_GF7 identity_mul_GF7)
qed

theorem pow_semantics_witness:
  "pow GF7 (Element (OfField GF7) 0) 0 = Inr (Elem (Element (OfField GF7) 1))
   \<and> pow GF7 (Element (OfField GF7) 0) 4 = Inr (Elem (Element (OfField GF7) 0))
   \<and> pow GF7 (Element (OfField GF7) 3) 5 = Inr (Elem (Element (OfField GF7) 5))
   \<and> pow GF7 (Element (OfField GF7) 3) (- 1) = Inr (Elem (Element (OfField GF7) 5))
   \<and> pow order_one (Element (OfField order_one) 0) 2 =
       Inr (Elem (Element (OfField order_one) 0))
   \<and> pow order_one (Element (OfField order_one) 0) (- 2) = Inr NaN
   \<and> pow order_zero (Element (OfField GF7) 3) 2 = Inr NaN"
proof -
  have "pow GF7 (Element (OfField GF7) 0) 0 = Inr (Elem (Element (OfField GF7) 1))"
    "pow GF7 (Element (OfField GF7) 0) 4 = Inr (Elem (Element (OfField GF7) 0))"
    using pow_semantics [where F = GF7 and z = "Element (OfField GF7) 0"
        and u = "Element (OfField GF7) 1" and base = "Element (OfField GF7) 0" and exp = 4]
    by (simp_all add: GF7_fields getitem_GF7_0 getitem_GF7_1 Element_eq_def)
  moreover have "pow GF7 (Element (OfField GF7) 3) 5 = Inr (Elem (Element (OfField GF7) 5))"
    using pow_semantics [where p = 7 and a = 3 and exp = 5 and nm = "''GF7''"]
    by (simp add: GF7_def)
  moreover have "pow GF7 (Element (OfField GF7) 3) (- 1) = Inr (Elem (Element (OfField GF7) 5))"
    using pow_semantics [where exp = 0] by simp
  moreover have "pow order_one (Element (OfField order_one) 0) 2 =
       Inr (Elem (Element (OfField order_one) 0))"
    using pow_semantics [where F = order_one and exp = 2
        and base = "Element (OfField order_one) 0"]
    by (simp add: order_fields)
  moreover have "pow order_one (Element (OfField order_one) 0) (- 2) = Inr NaN"
  proof -
    from pow_semantics [where F = order_one and exp = "- 2"
        and base = "Element (OfField order_one) 0"]
    have "(ord_F order_one = 0 \<or> ord_F order_one = 1) \<and> (- 2::int) < 0 \<longrightarrow>
        pow order_one (Element (OfField order_one) 0) (- 2) = Inr NaN"
      by blast
    then show ?thesis by (simp add: order_fields)
  qed
  moreover have "pow order_zero (Element (OfField GF7) 3) 2 = Inr NaN"
    using pow_semantics [where F = order_zero and exp = 2
        and base = "Element (OfField GF7) 3"]
    by (simp add: order_fields)
  ultimately show ?thesis by simp
qed

subsection \<open>The identity test\<close>

lemma all_E_returns:
  assumes "\<And>y. y \<in> set ys \<Longrightarrow> \<exists>b. q y = Inr b"
  shows "\<exists>b. all_E q ys = Inr b"
  using assms
proof (induction ys)
  case Nil
  show ?case by (rule exI [of _ True]) simp
next
  case (Cons y ys)
  from Cons.prems [of y] obtain b where "q y = Inr b" by auto
  moreover have "\<exists>b. all_E q ys = Inr b" using Cons.prems by (intro Cons.IH) simp
  ultimately show ?case by auto
qed

lemma Element_ops_return:
  assumes "x \<in> set (elements s)"
  shows "\<exists>r. Element_add x y = Inr r" and "\<exists>r. Element_mul x y = Inr r"
proof -
  have "(\<exists>r. Element_add x y = Inr r) \<and> (\<exists>r. Element_mul x y = Inr r)"
  proof (cases s)
    case (OfStructure S)
    then show ?thesis using assms
      by (auto simp: elements_Structure Element_add_Structure Element_mul_Structure)
  next
    case (OfField F)
    then have "ord_F F \<noteq> 0" using assms by (auto simp: elements_Field)
    then show ?thesis using assms OfField
      by (auto simp: elements_Field Element_add_Field Element_mul_Field)
  qed
  then show "\<exists>r. Element_add x y = Inr r" and "\<exists>r. Element_mul x y = Inr r" by simp_all
qed

lemma find_identity_returns:
  "\<exists>r. find_additive_identity (elements s) = Inr r"
  "\<exists>r. find_multiplicative_identity (elements s) = Inr r"
proof -
  show "\<exists>r. find_additive_identity (elements s) = Inr r"
    unfolding find_additive_identity_def
  proof (intro next_E_returns all_E_returns)
    fix x y assume "x \<in> set (elements s)"
    from Element_ops_return(1) [OF this, of y]
    show "\<exists>b. eq_E (Element_add x y) (Inr y) = Inr b" by (auto simp: eq_E_def)
  qed
  show "\<exists>r. find_multiplicative_identity (elements s) = Inr r"
    unfolding find_multiplicative_identity_def
  proof (intro next_E_returns all_E_returns)
    fix x y assume "x \<in> set (elements s)"
    from Element_ops_return(2) [OF this, of y]
    show "\<exists>b. eq_E (Element_mul x y) (Inr y) = Inr b" by (auto simp: eq_E_def)
  qed
qed

lemma getitem_not_None:
  assumes "i = 0 \<or> i = 1"
  shows "\<exists>v. getitem s i = Inr v \<and> is_not_None v"
  using assms find_identity_returns [of s]
  by (auto simp: getitem_def split: option.splits)

lemma has_identities_always: "has_identities s = Inr True"
  using getitem_not_None [of 0 s] getitem_not_None [of 1 s]
  by (auto simp: has_identities_def)

text \<open>
  C3: \<open>has_identities\<close> answers True for every structure, also for one that has
  no multiplicative identity: \<open>__getitem__\<close> returns \<open>nan\<close> for the missing
  identity, which is not \<open>None\<close>.
\<close>

theorem has_identities_without_identity:
  "has_identities s = Inr True
   \<and> find_additive_identity (elements (OfStructure no_mul_identity)) =
     Inr (Some (Element (OfStructure no_mul_identity) 0))
   \<and> find_multiplicative_identity (elements (OfStructure no_mul_identity)) = Inr None
   \<and> getitem (OfStructure no_mul_identity) 1 = Inr NaN
   \<and> has_identities (OfStructure no_mul_identity) = Inr True"
  by (simp add: has_identities_always getitem_no_mul_identity)
    (simp add: eval_Structure no_mul_identity_fields OR_def)

end
